theory Spec2Isabelle
  imports Main "HOL-Library.Product_Lexorder"
begin

section \<open>The data model of pusher.go\<close>

text \<open>
  Go's \<open>int\<close> and \<open>int64\<close> are modelled as \<open>int\<close>: the counters and etags of a channel
  grow by one per call, and no run considered here brings them near \<open>2^31\<close>.

  A \<open>*Message\<close> is an address into a heap of messages, because \<open>publish\<close> writes the
  stamps through the pointer it is given and the queue stores pointers. A nil pointer
  is \<open>None\<close> of \<open>addr option\<close>; \<open>addr\<close> itself is a pointer that is not nil.
\<close>

type_synonym addr = nat

record Message =
  ContentType :: string
  Payload :: "string option"
  Status :: int
  etag :: int
  time :: int

text \<open>
  A subscriber is a list element whose value is a \<open>chan *Message\<close> of capacity 0, made by
  \<open>Subscribe\<close>. Both are identified by one number. A channel of Go is open, or closed
  after having handed over a message or nothing.
\<close>

type_synonym slot = nat

datatype wait_chan = Parked | Closed "addr option"

record Stats =
  Created :: int
  Delivered :: int
  LastPublished :: int
  LastRequested :: int
  Published :: int
  Subscribers :: int
  Queued :: int

definition ConcurrencyModeBroadcast :: int where "ConcurrencyModeBroadcast = 0"
definition ConcurrencyModeFILO :: int where "ConcurrencyModeFILO = 1"
definition ConcurrencyModeLIFO :: int where "ConcurrencyModeLIFO = 2"

definition PollingMechanismLong :: int where "PollingMechanismLong = 0"
definition PollingMechanismInterval :: int where "PollingMechanismInterval = 1"

record Configuration =
  AllowChannelCreation :: bool
  ChannelCapacity :: int
  ConcurrencyMode :: int
  ContentType_cfg :: string
  GCInterval :: int
  MaxChannels :: int
  MaxChannelIdleTime :: int
  PollingMechanism :: int
  PollingTimeout :: int

definition DefaultConfiguration :: Configuration where
  "DefaultConfiguration =
     \<lparr>AllowChannelCreation = False, ChannelCapacity = 20, ConcurrencyMode = 0,
      ContentType_cfg = [], GCInterval = 60000000000, MaxChannels = 0,
      MaxChannelIdleTime = 600000000000, PollingMechanism = 0,
      PollingTimeout = 20000000000\<rparr>"

record channel =
  subscribers :: "slot list"
  config :: Configuration
  lastMessage :: "addr option"
  stats :: Stats
  id_c :: string
  queue :: "addr list"

text \<open>
  The memory the channels of one process share: the heap of messages with the next free
  address, and the Go channels made so far with the next free number.
\<close>

record mem =
  heap :: "addr \<Rightarrow> Message"
  next_msg :: addr
  chans :: "slot \<Rightarrow> wait_chan option"
  next_chan :: slot

definition conflictMessage :: addr where "conflictMessage = 0"
definition goneMessage :: addr where "goneMessage = 1"

definition zero_Message :: Message where
  "zero_Message = \<lparr>ContentType = [], Payload = None, Status = 0, etag = 0, time = 0\<rparr>"

definition init_mem :: mem where
  "init_mem =
     \<lparr>heap = (\<lambda>a. zero_Message)
        (conflictMessage := zero_Message\<lparr>Status := 409\<rparr>,
         goneMessage := zero_Message\<lparr>Status := 410\<rparr>),
      next_msg = 2, chans = (\<lambda>s. None), next_chan = 0\<rparr>"

definition zero_Stats :: Stats where
  "zero_Stats = \<lparr>Created = 0, Delivered = 0, LastPublished = 0, LastRequested = 0,
     Published = 0, Subscribers = 0, Queued = 0\<rparr>"

text \<open>\<open>newChannel\<close>; \<open>now\<close> is what \<open>time.Seconds()\<close> returns.\<close>

definition newChannel :: "int \<Rightarrow> string \<Rightarrow> Configuration \<Rightarrow> channel" where
  "newChannel now i cfg =
     \<lparr>subscribers = [], config = cfg, lastMessage = None,
      stats = zero_Stats\<lparr>Created := now\<rparr>, id_c = i, queue = []\<rparr>"

definition stamp :: "channel \<Rightarrow> int" where
  "stamp c =
     (if LastRequested (stats c) = 0 \<and> LastPublished (stats c) = 0 then Created (stats c)
      else if LastRequested (stats c) > LastPublished (stats c) then LastRequested (stats c)
      else LastPublished (stats c))"

section \<open>publish\<close>

text \<open>
  The first lines of \<open>publish\<close>: the stamps are written into the object \<open>m\<close> points to,
  and \<open>c.lastMessage\<close> is read after \<open>m.time\<close> and \<open>m.etag\<close> were written, so when
  \<open>c.lastMessage\<close> is \<open>m\<close> itself the comparison reads the new time and the new etag.
\<close>

definition stamp_message :: "int \<Rightarrow> addr \<Rightarrow> addr option \<Rightarrow> (addr \<Rightarrow> Message) \<Rightarrow> (addr \<Rightarrow> Message)" where
  "stamp_message now m lm h =
     (let h1 = h(m := (h m)\<lparr>time := now\<rparr>);
          h2 = h1(m := (h1 m)\<lparr>etag := 0\<rparr>)
      in case lm of
           None \<Rightarrow> h2
         | Some l \<Rightarrow>
             if time (h2 l) = time (h2 m) then h2(m := (h2 m)\<lparr>etag := etag (h2 l) + 1\<rparr>)
             else h2)"

text \<open>
  The loop over the subscribers. The send is in a \<open>select\<close> with a \<open>default\<close>: on a
  channel of capacity 0 it succeeds exactly when a goroutine is blocked receiving on it,
  which \<open>receiving\<close> tells for every subscriber. Every channel is closed.
\<close>

fun deliver :: "(slot \<Rightarrow> bool) \<Rightarrow> addr \<Rightarrow> slot list \<Rightarrow> (slot \<Rightarrow> wait_chan option) \<Rightarrow> int
    \<Rightarrow> int \<times> (slot \<Rightarrow> wait_chan option)" where
  "deliver receiving m [] cs n = (n, cs)"
| "deliver receiving m (e # es) cs n =
     (if receiving e then deliver receiving m es (cs(e := Some (Closed (Some m)))) (n + 1)
      else deliver receiving m es (cs(e := Some (Closed None))) n)"

text \<open>
  \<open>publish\<close>; \<open>now1\<close> and \<open>now2\<close> are its two readings of \<open>time.Seconds()\<close>.
  \<open>c.queue.Pop()\<close> removes the last element; it is reached with a queue that is not empty.
\<close>

definition enqueue :: "addr \<Rightarrow> bool \<Rightarrow> channel \<Rightarrow> channel" where
  "enqueue m q c =
     (if q \<and> ChannelCapacity (config c) > 0 then
        (if int (length (queue c)) \<ge> ChannelCapacity (config c)
         then c\<lparr>queue := m # butlast (queue c)\<rparr>
         else c\<lparr>stats := (stats c)\<lparr>Queued := Queued (stats c) + 1\<rparr>, queue := m # queue c\<rparr>)
      else c)"

definition publish :: "int \<Rightarrow> int \<Rightarrow> (slot \<Rightarrow> bool) \<Rightarrow> addr \<Rightarrow> bool \<Rightarrow> channel \<times> mem
    \<Rightarrow> int \<times> channel \<times> mem" where
  "publish now1 now2 receiving m q cw =
     (let c = fst cw; w = snd cw;
          h = stamp_message now1 m (lastMessage c) (heap w);
          c1 = c\<lparr>lastMessage := Some m,
                 stats := (stats c)\<lparr>Published := Published (stats c) + 1, LastPublished := now2\<rparr>\<rparr>;
          d = deliver receiving m (subscribers c1) (chans w) 0;
          c2 = c1\<lparr>subscribers := [],
                  stats := (stats c1)\<lparr>Subscribers := 0, Delivered := Delivered (stats c1) + fst d\<rparr>\<rparr>
      in (fst d, enqueue m q c2, w\<lparr>heap := h, chans := snd d\<rparr>))"

section \<open>Subscribe\<close>

text \<open>
  The history loop \<open>for i := c.queue.Len() - 1; i >= 0; i--\<close>: \<open>scan h since et q k\<close> is
  the loop with \<open>i = k - 1\<close>.
\<close>

fun scan :: "(addr \<Rightarrow> Message) \<Rightarrow> int \<Rightarrow> int \<Rightarrow> addr list \<Rightarrow> nat \<Rightarrow> addr option" where
  "scan h since et q 0 = None"
| "scan h since et q (Suc i) =
     (let m = q ! i in
      if time (h m) \<ge> since then
        (if time (h m) = since \<and> etag (h m) \<le> et then scan h since et q i
         else Some m)
      else scan h since et q i)"

text \<open>
  The \<open>switch\<close> on the concurrency mode: \<open>None\<close> when it returns the conflict at once,
  the state the call goes on with otherwise. \<open>now1\<close>, \<open>now2\<close> and \<open>receiving\<close> are what the
  \<open>publish\<close> of LIFO reads.
\<close>

definition concurrency :: "int \<Rightarrow> int \<Rightarrow> (slot \<Rightarrow> bool) \<Rightarrow> channel \<times> mem \<Rightarrow> (channel \<times> mem) option" where
  "concurrency now1 now2 receiving cw =
     (if ConcurrencyMode (config (fst cw)) = ConcurrencyModeLIFO
      then Some (snd (publish now1 now2 receiving conflictMessage False cw))
      else if ConcurrencyMode (config (fst cw)) = ConcurrencyModeFILO
      then (if Subscribers (stats (fst cw)) > 0 then None else Some cw)
      else Some cw)"

text \<open>The rest of \<open>Subscribe\<close>: the history loop, then the new subscriber.\<close>

definition history :: "int \<Rightarrow> int \<Rightarrow> channel \<times> mem
    \<Rightarrow> (slot option \<times> addr option) \<times> channel \<times> mem" where
  "history since et cw =
     (let c = fst cw; w = snd cw in
      case scan (heap w) since et (queue c) (length (queue c)) of
        Some m \<Rightarrow>
          ((None, Some m), c\<lparr>stats := (stats c)\<lparr>Delivered := Delivered (stats c) + 1\<rparr>\<rparr>, w)
      | None \<Rightarrow>
          if PollingMechanism (config c) = PollingMechanismInterval then ((None, None), c, w)
          else
            ((Some (next_chan w), None),
             c\<lparr>subscribers := subscribers c @ [next_chan w],
               stats := (stats c)\<lparr>Subscribers := Subscribers (stats c) + 1\<rparr>\<rparr>,
             w\<lparr>chans := (chans w)(next_chan w := Some Parked),
               next_chan := Suc (next_chan w)\<rparr>))"

text \<open>\<open>Subscribe\<close>; \<open>nowr\<close> is the reading of \<open>time.Seconds()\<close> for \<open>LastRequested\<close>.\<close>

definition Subscribe :: "int \<Rightarrow> int \<Rightarrow> int \<Rightarrow> (slot \<Rightarrow> bool) \<Rightarrow> int \<Rightarrow> int \<Rightarrow> channel \<times> mem
    \<Rightarrow> (slot option \<times> addr option) \<times> channel \<times> mem" where
  "Subscribe nowr now1 now2 receiving since et cw =
     (let c0 = (fst cw)\<lparr>stats := (stats (fst cw))\<lparr>LastRequested := nowr\<rparr>\<rparr> in
      case concurrency now1 now2 receiving (c0, snd cw) of
        None \<Rightarrow> ((None, Some conflictMessage), c0, snd cw)
      | Some cw1 \<Rightarrow> history since et cw1)"


section \<open>The exported operations\<close>

datatype panic = NilDereference | CloseOfClosedChannel

text \<open>\<open>Publish\<close>: the lock, then \<open>publish\<close>, whose first statement writes through \<open>m\<close>.\<close>

definition Publish :: "int \<Rightarrow> int \<Rightarrow> (slot \<Rightarrow> bool) \<Rightarrow> addr option \<Rightarrow> bool \<Rightarrow> channel \<times> mem
    \<Rightarrow> panic + int \<times> channel \<times> mem" where
  "Publish now1 now2 receiving m q cw =
     (case m of
        None \<Rightarrow> Inl NilDereference
      | Some a \<Rightarrow> Inr (publish now1 now2 receiving a q cw))"

text \<open>\<open>PublishString\<close> makes a new message, at the next free address.\<close>

definition PublishString :: "int \<Rightarrow> int \<Rightarrow> (slot \<Rightarrow> bool) \<Rightarrow> string \<Rightarrow> bool \<Rightarrow> channel \<times> mem
    \<Rightarrow> int \<times> channel \<times> mem" where
  "PublishString now1 now2 receiving s q cw =
     (let w = snd cw; a = next_msg w;
          w1 = w\<lparr>heap := (heap w)
                  (a := \<lparr>ContentType = ''text/plain'', Payload = Some s, Status = 200,
                         etag = 0, time = 0\<rparr>),
                next_msg := Suc a\<rparr>
      in publish now1 now2 receiving a q (fst cw, w1))"

text \<open>
  \<open>Unsubscribe\<close>: \<open>close\<close> panics on a channel that is closed already. An element that
  is nil has no channel. \<open>Remove\<close> leaves the list as it is when the element is not in it.
\<close>

definition Unsubscribe :: "slot \<Rightarrow> channel \<times> mem \<Rightarrow> panic + channel \<times> mem" where
  "Unsubscribe e cw =
     (let c = fst cw; w = snd cw in
      case chans w e of
        None \<Rightarrow> Inl NilDereference
      | Some (Closed x) \<Rightarrow> Inl CloseOfClosedChannel
      | Some Parked \<Rightarrow>
          Inr (c\<lparr>subscribers := remove1 e (subscribers c),
                 stats := (stats c)\<lparr>Subscribers := int (length (remove1 e (subscribers c)))\<rparr>\<rparr>,
               w\<lparr>chans := (chans w)(e := Some (Closed None))\<rparr>))"

subsection \<open>Sequences of calls\<close>

text \<open>
  A call of one of the four operations, with what it reads from its environment (the
  clock, and which subscribers are blocked receiving).
\<close>

datatype op =
    OpPublish int int "slot \<Rightarrow> bool" "addr option" bool
  | OpPublishString int int "slot \<Rightarrow> bool" string bool
  | OpSubscribe int int int "slot \<Rightarrow> bool" int int
  | OpUnsubscribe slot

fun exec :: "op \<Rightarrow> channel \<times> mem \<Rightarrow> panic + channel \<times> mem" where
  "exec (OpPublish now1 now2 receiving m q) cw =
     (case Publish now1 now2 receiving m q cw of Inl e \<Rightarrow> Inl e | Inr r \<Rightarrow> Inr (snd r))"
| "exec (OpPublishString now1 now2 receiving s q) cw =
     Inr (snd (PublishString now1 now2 receiving s q cw))"
| "exec (OpSubscribe nowr now1 now2 receiving since et) cw =
     Inr (snd (Subscribe nowr now1 now2 receiving since et cw))"
| "exec (OpUnsubscribe e) cw = Unsubscribe e cw"

fun run :: "op list \<Rightarrow> channel \<times> mem \<Rightarrow> panic + channel \<times> mem" where
  "run [] cw = Inr cw"
| "run (x # xs) cw = (case exec x cw of Inl e \<Rightarrow> Inl e | Inr cw' \<Rightarrow> run xs cw')"

text \<open>
  What a call contributes to the counters: whether it is a call of \<open>Publish\<close> or
  \<open>PublishString\<close>; whether it is a call of \<open>Subscribe\<close>; the count its \<open>publish\<close>
  returned (for \<open>Subscribe\<close>, the count that the \<open>publish\<close> of the conflict message under
  LIFO returned, which \<open>Subscribe\<close> drops); and whether \<open>Subscribe\<close> returned a message
  of the queue.
\<close>

fun publish_call :: "op \<Rightarrow> bool" where
  "publish_call (OpPublish now1 now2 receiving m q) = True"
| "publish_call (OpPublishString now1 now2 receiving s q) = True"
| "publish_call x = False"

fun subscribe_call :: "op \<Rightarrow> bool" where
  "subscribe_call (OpSubscribe nowr now1 now2 receiving since et) = True"
| "subscribe_call x = False"

fun delivered_count :: "op \<Rightarrow> channel \<times> mem \<Rightarrow> int" where
  "delivered_count (OpPublish now1 now2 receiving m q) cw =
     (case Publish now1 now2 receiving m q cw of Inl e \<Rightarrow> 0 | Inr r \<Rightarrow> fst r)"
| "delivered_count (OpPublishString now1 now2 receiving s q) cw =
     fst (PublishString now1 now2 receiving s q cw)"
| "delivered_count (OpSubscribe nowr now1 now2 receiving since et) cw =
     (if ConcurrencyMode (config (fst cw)) = ConcurrencyModeLIFO
      then fst (publish now1 now2 receiving conflictMessage False
             ((fst cw)\<lparr>stats := (stats (fst cw))\<lparr>LastRequested := nowr\<rparr>\<rparr>, snd cw))
      else 0)"
| "delivered_count (OpUnsubscribe e) cw = 0"

fun immediate_hit :: "op \<Rightarrow> channel \<times> mem \<Rightarrow> bool" where
  "immediate_hit (OpSubscribe nowr now1 now2 receiving since et) cw =
     (case concurrency now1 now2 receiving
             ((fst cw)\<lparr>stats := (stats (fst cw))\<lparr>LastRequested := nowr\<rparr>\<rparr>, snd cw) of
        None \<Rightarrow> False
      | Some cw1 \<Rightarrow>
          scan (heap (snd cw1)) since et (queue (fst cw1)) (length (queue (fst cw1))) \<noteq> None)"
| "immediate_hit x cw = False"

text \<open>The sums of these along a run, each call counted in the state it was made in.\<close>

fun tally :: "(op \<Rightarrow> channel \<times> mem \<Rightarrow> int) \<Rightarrow> op list \<Rightarrow> channel \<times> mem \<Rightarrow> int" where
  "tally f [] cw = 0"
| "tally f (x # xs) cw =
     f x cw + (case exec x cw of Inl e \<Rightarrow> 0 | Inr cw' \<Rightarrow> tally f xs cw')"

definition of_bool_int :: "bool \<Rightarrow> int" where
  "of_bool_int b = (if b then 1 else 0)"

text \<open>A sequence of calls of \<open>publish\<close>, each with its clock readings, its message and its flag.\<close>

type_synonym pub = "int \<times> int \<times> (slot \<Rightarrow> bool) \<times> addr \<times> bool"

definition pub_time :: "pub \<Rightarrow> int" where "pub_time p = fst p"
definition pub_msg :: "pub \<Rightarrow> addr" where "pub_msg p = fst (snd (snd (snd p)))"
definition pub_queue :: "pub \<Rightarrow> bool" where "pub_queue p = snd (snd (snd (snd p)))"

definition publish1 :: "pub \<Rightarrow> channel \<times> mem \<Rightarrow> channel \<times> mem" where
  "publish1 p cw =
     snd (publish (fst p) (fst (snd p)) (fst (snd (snd p))) (pub_msg p) (pub_queue p) cw)"

fun publishes :: "pub list \<Rightarrow> channel \<times> mem \<Rightarrow> channel \<times> mem" where
  "publishes [] cw = cw"
| "publishes (p # ps) cw = publishes ps (publish1 p cw)"

section \<open>The statistics of a channel as text\<close>

text \<open>\<open>strings.Split(s, "/", 2)\<close>.\<close>

definition split2 :: "string \<Rightarrow> string list" where
  "split2 s =
     (if CHR ''/'' \<in> set s
      then [takeWhile (\<lambda>c. c \<noteq> CHR ''/'') s, tl (dropWhile (\<lambda>c. c \<noteq> CHR ''/'') s)]
      else [s])"

definition plain_format :: string where
  "plain_format =
     ''queued messages: %d'' @ [CHR 0x0A] @
     ''last requested: %d sec. ago (-1=never)'' @ [CHR 0x0A] @
     ''last published: %d sec. ago (-1=never)'' @ [CHR 0x0A] @
     ''active subscribers: %d'' @ [CHR 0x0A] @
     ''total published: %d'' @ [CHR 0x0A] @
     ''total delivered: %d''"

definition json_format :: string where
  "json_format =
     ''{'' @ [CHR 0x22] @ ''queued'' @ [CHR 0x22] @ '':%d,'' @
     [CHR 0x22] @ ''lastRequested'' @ [CHR 0x22] @ '':%d,'' @
     [CHR 0x22] @ ''lastPublished'' @ [CHR 0x22] @ '':%d,'' @
     [CHR 0x22] @ ''subscribers'' @ [CHR 0x22] @ '':%d,'' @
     [CHR 0x22] @ ''published'' @ [CHR 0x22] @ '':%d,'' @
     [CHR 0x22] @ ''delivered'' @ [CHR 0x22] @ '':%d}''"

text \<open>The map \<open>statFormats\<close>; a key it does not have gives the empty string.\<close>

definition statFormats :: "string \<Rightarrow> string" where
  "statFormats k =
     (if k = ''plain'' then plain_format else if k = ''json'' then json_format else [])"

text \<open>
  The block of \<open>writeStats\<close> under \<open>if subtype == "plain"\<close>, on the copy \<open>stats\<close> of the
  channel's statistics; \<open>now1\<close> and \<open>now2\<close> are its two readings of \<open>time.Seconds()\<close>.
\<close>

definition plain_ago :: "int \<Rightarrow> int \<Rightarrow> Stats \<Rightarrow> Stats" where
  "plain_ago now1 now2 s =
     (let s1 = (if LastRequested s > 0 then s\<lparr>LastRequested := now1 - LastRequested s\<rparr>
                else s\<lparr>LastRequested := - 1\<rparr>)
      in if LastPublished s1 > 0 then s1\<lparr>LastPublished := now2 - LastPublished s1\<rparr>
         else s1\<lparr>LastRequested := - 1\<rparr>)"

text \<open>
  \<open>writeStats\<close>; \<open>accept\<close> is the Accept header in lower case. The result is the
  Content-Type header, the format, and the arguments of \<open>Fprintf\<close> in their order.
\<close>

definition writeStats :: "int \<Rightarrow> int \<Rightarrow> string \<Rightarrow> channel \<Rightarrow> string \<times> string \<times> int list" where
  "writeStats now1 now2 accept c =
     (let acc = split2 accept;
          ts = (if length acc \<noteq> 2 then (''text'', ''plain'')
                else if acc ! 0 \<noteq> ''text'' \<and> acc ! 0 \<noteq> ''application'' then (''text'', ''plain'')
                else (acc ! 0, acc ! 1));
          subtype = (if statFormats (snd ts) = [] then ''plain'' else snd ts);
          format = (if statFormats (snd ts) = [] then statFormats ''plain'' else statFormats (snd ts));
          s = (if subtype = ''plain'' then plain_ago now1 now2 (stats c) else stats c)
      in (fst ts @ ''/'' @ subtype, format,
          [Queued s, LastRequested s, LastPublished s, Subscribers s, Published s, Delivered s]))"

section \<open>The pusher and its garbage collector\<close>

text \<open>
  The map of channels is a list of keys with their channels, in the order \<open>range\<close> yields
  them.
\<close>

record pusher =
  channels :: "(string \<times> channel) list"
  config_p :: Configuration

type_synonym channelSlice = "channel list"

definition Less :: "channelSlice \<Rightarrow> nat \<Rightarrow> nat \<Rightarrow> bool" where
  "Less cs i j = (stamp (cs ! i) < stamp (cs ! j))"

text \<open>\<open>Swap\<close>: \<open>cs[i], cs[j] = cs[i], cs[j]\<close>.\<close>

definition Swap :: "channelSlice \<Rightarrow> nat \<Rightarrow> nat \<Rightarrow> channelSlice" where
  "Swap cs i j = (let a = cs ! i; b = cs ! j in (cs[i := a])[j := b])"

text \<open>
  \<open>sort.Sort\<close> is Go's library: it changes the slice by calls of \<open>Swap\<close> only. \<open>sw\<close> are
  the pairs of indices it calls \<open>Swap\<close> with, in their order.
\<close>

fun sort_Sort :: "(nat \<times> nat) list \<Rightarrow> channelSlice \<Rightarrow> channelSlice" where
  "sort_Sort [] cs = cs"
| "sort_Sort (ij # sw) cs = sort_Sort sw (Swap cs (fst ij) (snd ij))"

text \<open>Go's division of integers rounds towards zero.\<close>

definition quot :: "int \<Rightarrow> int \<Rightarrow> int" where
  "quot a b = sgn a * sgn b * (\<bar>a\<bar> div \<bar>b\<bar>)"

text \<open>The loop of \<open>GC\<close> over the sorted slice: the channels it collects.\<close>

fun collect :: "Configuration \<Rightarrow> int \<Rightarrow> int \<Rightarrow> channel list \<Rightarrow> channel list" where
  "collect cfg limit count [] = []"
| "collect cfg limit count (c # cs) =
     (if (MaxChannels cfg = 0 \<or> count \<le> MaxChannels cfg) \<and> stamp c \<ge> limit then []
      else c # collect cfg limit (count - 1) cs)"

text \<open>\<open>p.channels[c.id] = nil, false\<close> for every collected channel.\<close>

fun remove_keys :: "channel list \<Rightarrow> (string \<times> channel) list \<Rightarrow> (string \<times> channel) list" where
  "remove_keys [] m = m"
| "remove_keys (c # cs) m = remove_keys cs (filter (\<lambda>kv. fst kv \<noteq> id_c c) m)"

text \<open>
  The last loop of \<open>GC\<close>: \<open>c.Publish(goneMessage, false)\<close> on every collected channel;
  \<open>tm k\<close> are the clock readings of the \<open>k\<close>-th of them.
\<close>

fun drain :: "(nat \<Rightarrow> int \<times> int) \<Rightarrow> (slot \<Rightarrow> bool) \<Rightarrow> nat \<Rightarrow> channel list \<Rightarrow> mem
    \<Rightarrow> channel list \<times> mem" where
  "drain tm receiving k [] w = ([], w)"
| "drain tm receiving k (c # cs) w =
     (let r = publish (fst (tm k)) (snd (tm k)) receiving goneMessage False (c, w);
          rest = drain tm receiving (Suc k) cs (snd (snd r))
      in (fst (snd r) # fst rest, snd rest))"

text \<open>
  \<open>GC\<close>; \<open>start\<close> is the reading of \<open>time.Nanoseconds()\<close>. The result is the count it
  returns, the collected channels after their last publish, the pusher and the memory.
\<close>

definition GC :: "int \<Rightarrow> (nat \<times> nat) list \<Rightarrow> (nat \<Rightarrow> int \<times> int) \<Rightarrow> (slot \<Rightarrow> bool) \<Rightarrow> pusher \<times> mem
    \<Rightarrow> int \<times> channel list \<times> pusher \<times> mem" where
  "GC start sw tm receiving pw =
     (let p = fst pw;
          limit = quot (start - MaxChannelIdleTime (config_p p)) 1000000000;
          count = int (length (channels p));
          sorted = sort_Sort sw (map snd (channels p));
          gc = collect (config_p p) limit count sorted;
          p' = p\<lparr>channels := remove_keys gc (channels p)\<rparr>;
          d = drain tm receiving 0 gc (snd pw)
      in (int (length gc), fst d, p', snd d))"


section \<open>Stamps and the configurations of the tests\<close>

text \<open>The stamp of a message, as a pair ordered lexicographically.\<close>

definition stamp_of :: "(addr \<Rightarrow> Message) \<Rightarrow> addr \<Rightarrow> int \<times> int" where
  "stamp_of h a = (time (h a), etag (h a))"

text \<open>
  The rule of the specification for the stamps of a sequence of publishes, from the clock
  readings alone: the etag is 0 when the time differs from the time of the message
  before (or there is none), and the etag of the message before plus 1 otherwise.
\<close>

fun spec_stamps :: "(int \<times> int) option \<Rightarrow> int list \<Rightarrow> (int \<times> int) list" where
  "spec_stamps prev [] = []"
| "spec_stamps prev (t # ts) =
     (let e = (case prev of None \<Rightarrow> 0 | Some pe \<Rightarrow> if fst pe = t then snd pe + 1 else 0)
      in (t, e) # spec_stamps (Some (t, e)) ts)"

definition zero_Configuration :: Configuration where
  "zero_Configuration =
     \<lparr>AllowChannelCreation = False, ChannelCapacity = 0, ConcurrencyMode = 0,
      ContentType_cfg = [], GCInterval = 0, MaxChannels = 0, MaxChannelIdleTime = 0,
      PollingMechanism = 0, PollingTimeout = 0\<rparr>"

text \<open>\<open>intervalConf\<close> and \<open>longConf\<close> of \<open>channel_test.go\<close>.\<close>

definition intervalConf :: Configuration where
  "intervalConf =
     zero_Configuration\<lparr>PollingMechanism := PollingMechanismInterval, ChannelCapacity := 3\<rparr>"

definition longConf :: Configuration where
  "longConf =
     zero_Configuration\<lparr>PollingMechanism := PollingMechanismLong, ChannelCapacity := 3\<rparr>"

definition filoConf :: Configuration where
  "filoConf = longConf\<lparr>ConcurrencyMode := ConcurrencyModeFILO\<rparr>"

definition lifoConf :: Configuration where
  "lifoConf = longConf\<lparr>ConcurrencyMode := ConcurrencyModeLIFO\<rparr>"

text \<open>No subscriber is blocked receiving; every subscriber is.\<close>

definition nobody :: "slot \<Rightarrow> bool" where "nobody s = False"
definition everybody :: "slot \<Rightarrow> bool" where "everybody s = True"

text \<open>A channel of the tests after two messages were published and queued in one second.\<close>

definition two_queued :: "channel \<times> mem" where
  "two_queued =
     publishes [(100, 100, nobody, 5, True), (100, 100, nobody, 6, True)]
       (newChannel 100 ''test'' intervalConf, init_mem)"

text \<open>
  The publishes of \<open>TestFullChannel\<close>: four messages, all queued. And one message
  published twice, as \<open>TestLongMediumChannel\<close> does with \<open>tm1\<close>. And two messages with
  the wall clock set back a second between them.
\<close>

definition four_published :: "pub list" where
  "four_published =
     [(100, 100, nobody, 5, True), (100, 100, nobody, 6, True),
      (101, 101, nobody, 7, True), (101, 101, nobody, 8, True)]"

definition same_twice :: "pub list" where
  "same_twice = [(100, 100, nobody, 5, True), (101, 101, nobody, 5, True)]"

definition clock_back :: "pub list" where
  "clock_back = [(101, 101, nobody, 5, True), (100, 100, nobody, 6, True)]"

definition test_channel :: "channel \<times> mem" where
  "test_channel = (newChannel 100 ''test'' intervalConf, init_mem)"

text \<open>The channel of the tests after one \<open>Subscribe\<close> in the second 100 and no publish.\<close>

definition requested_only :: channel where
  "requested_only = fst (snd (Subscribe 100 100 100 nobody 0 0 test_channel))"

text \<open>
  A pusher whose collector runs (\<open>MaxChannels\<close> is 5) with \<open>MaxChannelIdleTime\<close> 0, and
  its one channel, made in the second 100. And a pusher with an idle limit of 50 seconds
  whose map yields a channel of the second 190 before a channel of the second 100.
\<close>

definition count_only_conf :: Configuration where
  "count_only_conf = zero_Configuration\<lparr>GCInterval := 60000000000, MaxChannels := 5\<rparr>"

definition one_channel_pusher :: pusher where
  "one_channel_pusher =
     \<lparr>channels = [(''a'', newChannel 100 ''a'' count_only_conf)], config_p = count_only_conf\<rparr>"

definition idle_conf :: Configuration where
  "idle_conf =
     zero_Configuration\<lparr>GCInterval := 60000000000, MaxChannelIdleTime := 50000000000\<rparr>"

definition two_channel_pusher :: pusher where
  "two_channel_pusher =
     \<lparr>channels = [(''fresh'', newChannel 190 ''fresh'' idle_conf),
                  (''stale'', newChannel 100 ''stale'' idle_conf)],
      config_p = idle_conf\<rparr>"

text \<open>
  New channels of the three concurrency modes after one \<open>Subscribe\<close> that found nothing
  and parked (in the second 100), and a pusher that holds the first of them.
\<close>

definition long_parked :: "channel \<times> mem" where
  "long_parked = snd (Subscribe 100 100 100 nobody 0 0 (newChannel 100 ''test'' longConf, init_mem))"

definition filo_parked :: "channel \<times> mem" where
  "filo_parked = snd (Subscribe 100 100 100 nobody 0 0 (newChannel 100 ''test'' filoConf, init_mem))"

definition lifo_parked :: "channel \<times> mem" where
  "lifo_parked = snd (Subscribe 100 100 100 nobody 0 0 (newChannel 100 ''test'' lifoConf, init_mem))"


definition lifo_requested :: channel where
  "lifo_requested =
     (fst lifo_parked)\<lparr>stats := (stats (fst lifo_parked))\<lparr>LastRequested := 101\<rparr>\<rparr>"

definition lifo_conflicted :: "channel \<times> mem" where
  "lifo_conflicted =
     snd (publish 101 101 everybody conflictMessage False (lifo_requested, snd lifo_parked))"

text \<open>
  On a new LIFO channel: a \<open>Subscribe\<close> alone; and a \<open>Subscribe\<close> that parks, a
  \<open>PublishString\<close> that is handed to it and queued, and a \<open>Subscribe\<close> that finds the
  message in the queue.
\<close>

definition lifo_new :: "channel \<times> mem" where
  "lifo_new = (newChannel 100 ''test'' lifoConf, init_mem)"

definition one_subscribe :: "op list" where
  "one_subscribe = [OpSubscribe 100 100 100 nobody 0 0]"

definition three_calls :: "op list" where
  "three_calls =
     [OpSubscribe 100 100 100 nobody 0 0,
      OpPublishString 101 101 everybody ''hello'' True,
      OpSubscribe 102 102 102 nobody 0 0]"

definition three_done :: "channel \<times> mem" where
  "three_done =
     snd (Subscribe 102 102 102 nobody 0 0
            (snd (PublishString 101 101 everybody ''hello'' True lifo_parked)))"

text \<open>
  On a new LIFO channel, all in the second 100: three messages published and queued, two
  calls of \<open>Subscribe\<close>, and a fourth message published and queued.
\<close>

definition stamp_collision :: "op list" where
  "stamp_collision =
     [OpPublish 100 100 nobody (Some 5) True,
      OpPublish 100 100 nobody (Some 6) True,
      OpPublish 100 100 nobody (Some 7) True,
      OpSubscribe 100 100 100 nobody 0 0,
      OpSubscribe 100 100 100 nobody 0 0,
      OpPublish 100 100 nobody (Some 8) True]"

definition two_queued_requested :: channel where
  "two_queued_requested =
     (fst two_queued)\<lparr>stats := (stats (fst two_queued))\<lparr>LastRequested := 101\<rparr>\<rparr>"

section \<open>Invariants of a channel\<close>

text \<open>
  The counter of subscribers is the length of the list, and the list holds exactly the
  channels of Go that are open, each once.
\<close>

definition channel_ok :: "channel \<times> mem \<Rightarrow> bool" where
  "channel_ok cw =
     (Subscribers (stats (fst cw)) = int (length (subscribers (fst cw))) \<and>
      distinct (subscribers (fst cw)) \<and>
      set (subscribers (fst cw)) = {s. chans (snd cw) s = Some Parked} \<and>
      (\<forall>s. next_chan (snd cw) \<le> s \<longrightarrow> chans (snd cw) s = None))"

text \<open>The two synthetic messages are what the package made them, stamps apart.\<close>

definition synthetic_ok :: "mem \<Rightarrow> bool" where
  "synthetic_ok w =
     (Status (heap w conflictMessage) = 409 \<and> Payload (heap w conflictMessage) = None \<and>
      Status (heap w goneMessage) = 410 \<and> Payload (heap w goneMessage) = None \<and>
      2 \<le> next_msg w)"

section \<open>The history lookup\<close>

lemma scan_take:
  "k \<le> length q \<Longrightarrow>
   scan h since et q k = find (\<lambda>a. (since, et) < stamp_of h a) (rev (take k q))"
proof (induction k)
  case 0
  show ?case by simp
next
  case (Suc k)
  then have k: "k < length q" by simp
  have "rev (take (Suc k) q) = q ! k # rev (take k q)"
    using k by (simp add: take_Suc_conv_app_nth)
  moreover have "scan h since et q k = find (\<lambda>a. (since, et) < stamp_of h a) (rev (take k q))"
    using Suc by simp
  ultimately show ?case
    by (auto simp: Let_def stamp_of_def less_prod_def)
qed

lemma scan_find:
  "scan h since et q (length q) = find (\<lambda>a. (since, et) < stamp_of h a) (rev q)"
  using scan_take [of "length q" q h since et] by simp

lemma find_SomeD: "find P xs = Some x \<Longrightarrow> P x \<and> x \<in> set xs"
  by (induction xs) (auto split: if_splits)

text \<open>
  Claim C1. When \<open>Subscribe\<close> gets past the \<open>switch\<close> on the concurrency mode, in the
  state \<open>(c1, w1)\<close>, it walks the queue from the oldest message to the newest and
  returns the first message whose \<open>(time, etag)\<close> is lexicographically greater than
  \<open>(since, et)\<close>, with no wait-slot and \<open>Delivered\<close> one higher; when there is no such
  message it returns no message. A message it returns is in the queue and does not have
  \<open>time = since\<close> with \<open>etag \<le> et\<close>.
\<close>

theorem Subscribe_history_lookup:
  assumes "concurrency now1 now2 receiving
             ((fst cw)\<lparr>stats := (stats (fst cw))\<lparr>LastRequested := nowr\<rparr>\<rparr>, snd cw) = Some (c1, w1)"
  shows "(case find (\<lambda>a. (since, et) < stamp_of (heap w1) a) (rev (queue c1)) of
            Some m \<Rightarrow>
              Subscribe nowr now1 now2 receiving since et cw =
                ((None, Some m),
                 c1\<lparr>stats := (stats c1)\<lparr>Delivered := Delivered (stats c1) + 1\<rparr>\<rparr>, w1)
          | None \<Rightarrow> snd (fst (Subscribe nowr now1 now2 receiving since et cw)) = None) \<and>
         (\<forall>m. snd (fst (Subscribe nowr now1 now2 receiving since et cw)) = Some m \<longrightarrow>
            m \<in> set (queue c1) \<and> (since, et) < stamp_of (heap w1) m \<and>
            \<not> (time (heap w1 m) = since \<and> etag (heap w1 m) \<le> et))"
proof -
  let ?P = "\<lambda>a. (since, et) < stamp_of (heap w1) a"
  have S: "Subscribe nowr now1 now2 receiving since et cw = history since et (c1, w1)"
    using assms by (simp add: Subscribe_def Let_def)
  show ?thesis
  proof (cases "find ?P (rev (queue c1))")
    case None
    then show ?thesis
      by (simp add: S history_def scan_find Let_def)
  next
    case (Some m)
    then have "?P m" and "m \<in> set (queue c1)"
      using find_SomeD [of ?P "rev (queue c1)" m] by auto
    with Some show ?thesis
      by (auto simp: S history_def scan_find Let_def stamp_of_def less_prod_def)
  qed
qed

lemmas eval_defs = publish1_def publish_def pub_msg_def pub_queue_def Let_def enqueue_def
  newChannel_def intervalConf_def longConf_def filoConf_def lifoConf_def zero_Configuration_def
  stamp_message_def init_mem_def zero_Message_def zero_Stats_def conflictMessage_def goneMessage_def
  nobody_def everybody_def ConcurrencyModeBroadcast_def ConcurrencyModeFILO_def
  ConcurrencyModeLIFO_def PollingMechanismLong_def PollingMechanismInterval_def

lemma two_queued_queue: "queue (fst two_queued) = [6, 5]"
  by (simp add: two_queued_def eval_defs)

lemma two_queued_stamps:
  "stamp_of (heap (snd two_queued)) 5 = (100, 0) \<and> stamp_of (heap (snd two_queued)) 6 = (100, 1)"
  by (simp add: two_queued_def stamp_of_def eval_defs)

lemma two_queued_mode: "ConcurrencyMode (config (fst two_queued)) = 0"
  by (simp add: two_queued_def eval_defs)

text \<open>
  The theorem at the channel with the messages 5 and 6 queued with the stamps (100, 0)
  and (100, 1): asked for what follows (100, 0), \<open>Subscribe\<close> returns 6.
\<close>

theorem Subscribe_history_lookup_witness:
  "concurrency 101 101 nobody (two_queued_requested, snd two_queued)
     = Some (two_queued_requested, snd two_queued) \<and>
   Subscribe 101 101 101 nobody 100 0 two_queued =
     ((None, Some 6),
      two_queued_requested\<lparr>stats := (stats two_queued_requested)
         \<lparr>Delivered := Delivered (stats two_queued_requested) + 1\<rparr>\<rparr>,
      snd two_queued)"
proof -
  have c: "concurrency 101 101 nobody
             ((fst two_queued)\<lparr>stats := (stats (fst two_queued))\<lparr>LastRequested := 101\<rparr>\<rparr>, snd two_queued)
           = Some (two_queued_requested, snd two_queued)"
    using two_queued_mode
    by (simp add: concurrency_def two_queued_requested_def ConcurrencyModeLIFO_def ConcurrencyModeFILO_def)
  have q: "rev (queue two_queued_requested) = [5, 6]"
    using two_queued_queue by (simp add: two_queued_requested_def)
  have f: "find (\<lambda>a. (100, 0) < stamp_of (heap (snd two_queued)) a)
             (rev (queue two_queued_requested)) = Some 6"
    using two_queued_stamps by (simp add: q less_prod_def)
  have "Subscribe 101 101 101 nobody 100 0 two_queued =
     ((None, Some 6),
      two_queued_requested\<lparr>stats := (stats two_queued_requested)
         \<lparr>Delivered := Delivered (stats two_queued_requested) + 1\<rparr>\<rparr>,
      snd two_queued)"
    using Subscribe_history_lookup [OF c, of 100 0] by (simp only: f option.case)
  moreover have "concurrency 101 101 nobody (two_queued_requested, snd two_queued)
     = Some (two_queued_requested, snd two_queued)"
    using c by (simp add: two_queued_requested_def)
  ultimately show ?thesis by simp
qed

section \<open>The queue of a channel\<close>

lemma deliver_fst_snd:
  "fst (deliver r m es cs n) = n + int (length (filter r es)) \<and>
   (\<forall>s. snd (deliver r m es cs n) s =
      (if s \<in> set es then Some (Closed (if r s then Some m else None)) else cs s))"
  by (induction es arbitrary: cs n) auto

lemma publish_config [simp]:
  "config (fst (snd (publish now1 now2 r m q cw))) = config (fst cw)"
  by (simp add: publish_def enqueue_def Let_def)

lemma publish_lastMessage [simp]:
  "lastMessage (fst (snd (publish now1 now2 r m q cw))) = Some m"
  by (simp add: publish_def enqueue_def Let_def)

lemma publish_heap [simp]:
  "heap (snd (snd (publish now1 now2 r m q cw))) =
     stamp_message now1 m (lastMessage (fst cw)) (heap (snd cw))"
  by (simp add: publish_def Let_def)

lemma publish_queue:
  "queue (fst (snd (publish now1 now2 r m q cw))) =
     (if q \<and> 0 < ChannelCapacity (config (fst cw)) then
        (if ChannelCapacity (config (fst cw)) \<le> int (length (queue (fst cw)))
         then m # butlast (queue (fst cw)) else m # queue (fst cw))
      else queue (fst cw))"
  by (simp add: publish_def enqueue_def Let_def)

lemma publish_Queued:
  "Queued (stats (fst (snd (publish now1 now2 r m q cw)))) =
     (if q \<and> 0 < ChannelCapacity (config (fst cw)) \<and>
         int (length (queue (fst cw))) < ChannelCapacity (config (fst cw))
      then Queued (stats (fst cw)) + 1 else Queued (stats (fst cw)))"
  by (simp add: publish_def enqueue_def Let_def)

lemma publishes_append: "publishes (ps @ qs) cw = publishes qs (publishes ps cw)"
  by (induction ps arbitrary: cw) auto

lemma publishes_config [simp]: "config (fst (publishes ps cw)) = config (fst cw)"
  by (induction ps arbitrary: cw) (auto simp: publish1_def)

lemma cons_butlast_take:
  "0 < n \<Longrightarrow> length q = n \<Longrightarrow> m # butlast q = take n (m # q)"
  by (cases n) (simp_all add: butlast_conv_take)

lemma publish1_queue:
  assumes "0 < ChannelCapacity (config (fst cw))"
    and "int (length (queue (fst cw))) \<le> ChannelCapacity (config (fst cw))"
  shows "queue (fst (publish1 p cw)) =
     (if pub_queue p
      then take (nat (ChannelCapacity (config (fst cw)))) (pub_msg p # queue (fst cw))
      else queue (fst cw))"
proof (cases "ChannelCapacity (config (fst cw)) \<le> int (length (queue (fst cw)))")
  case True
  with assms have "length (queue (fst cw)) = nat (ChannelCapacity (config (fst cw)))" by simp
  with assms True show ?thesis
    by (simp add: publish1_def publish_queue cons_butlast_take)
next
  case False
  then show ?thesis using assms by (simp add: publish1_def publish_queue)
qed

lemma take_append_take: "take n (xs @ take n ys) = take n (xs @ ys)"
  by (simp add: min_def)

lemma publishes_queue:
  assumes "0 < ChannelCapacity (config (fst cw))"
    and "int (length (queue (fst cw))) \<le> ChannelCapacity (config (fst cw))"
  shows "queue (fst (publishes ps cw)) =
     take (nat (ChannelCapacity (config (fst cw))))
       (rev (map pub_msg (filter pub_queue ps)) @ queue (fst cw))"
  using assms
proof (induction ps arbitrary: cw)
  case Nil
  then show ?case by simp
next
  case (Cons p ps)
  let ?n = "nat (ChannelCapacity (config (fst cw)))"
  have cfg: "config (fst (publish1 p cw)) = config (fst cw)"
    by (simp add: publish1_def)
  have q1: "queue (fst (publish1 p cw)) =
     (if pub_queue p then take ?n (pub_msg p # queue (fst cw)) else queue (fst cw))"
    using Cons.prems by (rule publish1_queue)
  have len: "int (length (queue (fst (publish1 p cw)))) \<le> ChannelCapacity (config (fst (publish1 p cw)))"
    using Cons.prems by (auto simp: q1 cfg min_def)
  have "queue (fst (publishes ps (publish1 p cw))) =
     take ?n (rev (map pub_msg (filter pub_queue ps)) @ queue (fst (publish1 p cw)))"
    using Cons.IH [of "publish1 p cw"] Cons.prems len by (simp add: cfg)
  then have H: "queue (fst (publishes (p # ps) cw)) =
     take ?n (rev (map pub_msg (filter pub_queue ps)) @ queue (fst (publish1 p cw)))"
    by simp
  show ?case
  proof (cases "pub_queue p")
    case True
    then have "queue (fst (publishes (p # ps) cw)) =
       take ?n (rev (map pub_msg (filter pub_queue ps)) @ pub_msg p # queue (fst cw))"
      using H q1 by (simp only: if_True take_append_take)
    with True show ?thesis by simp
  next
    case False
    with H q1 show ?thesis by simp
  qed
qed

lemma publishes_Queued:
  assumes "0 < ChannelCapacity (config (fst cw))"
    and "int (length (queue (fst cw))) \<le> ChannelCapacity (config (fst cw))"
    and "Queued (stats (fst cw)) = int (length (queue (fst cw)))"
  shows "Queued (stats (fst (publishes ps cw))) = int (length (queue (fst (publishes ps cw))))"
  using assms
proof (induction ps arbitrary: cw)
  case Nil
  then show ?case by simp
next
  case (Cons p ps)
  have cfg: "config (fst (publish1 p cw)) = config (fst cw)"
    by (simp add: publish1_def)
  have q1: "queue (fst (publish1 p cw)) =
     (if pub_queue p then take (nat (ChannelCapacity (config (fst cw)))) (pub_msg p # queue (fst cw))
      else queue (fst cw))"
    using Cons.prems(1,2) by (rule publish1_queue)
  have len: "int (length (queue (fst (publish1 p cw)))) \<le> ChannelCapacity (config (fst (publish1 p cw)))"
    using Cons.prems by (auto simp: q1 cfg min_def)
  have "Queued (stats (fst (publish1 p cw))) = int (length (queue (fst (publish1 p cw))))"
    using Cons.prems by (auto simp: publish1_def publish_Queued publish_queue)
  with Cons.IH [of "publish1 p cw"] Cons.prems(1) len show ?case
    by (simp add: cfg)
qed

text \<open>
  Claim C2. On a channel made with a capacity above 0, after any sequence of publishes
  that all ask for queueing, the queue holds the most recent messages, newest first, as
  many as the capacity allows; its length is at most the capacity and \<open>Queued\<close> is its
  length. And one such publish in any state of such a channel: when the queue is full
  the last entry (the oldest message) is dropped and \<open>Queued\<close> stays, otherwise \<open>Queued\<close>
  grows by one; the new message is the head in both cases.
\<close>

theorem queue_bound:
  assumes "0 < ChannelCapacity cfg" and "\<forall>p\<in>set ps. pub_queue p"
  shows "queue (fst (publishes ps (newChannel now i cfg, w))) =
           take (nat (ChannelCapacity cfg)) (rev (map pub_msg ps)) \<and>
         int (length (queue (fst (publishes ps (newChannel now i cfg, w))))) \<le> ChannelCapacity cfg \<and>
         Queued (stats (fst (publishes ps (newChannel now i cfg, w)))) =
           int (length (queue (fst (publishes ps (newChannel now i cfg, w))))) \<and>
         (\<forall>now1 now2 r m cw. config (fst cw) = cfg \<longrightarrow>
            (if ChannelCapacity cfg \<le> int (length (queue (fst cw)))
             then queue (fst (snd (publish now1 now2 r m True cw))) = m # butlast (queue (fst cw)) \<and>
                  Queued (stats (fst (snd (publish now1 now2 r m True cw)))) = Queued (stats (fst cw))
             else queue (fst (snd (publish now1 now2 r m True cw))) = m # queue (fst cw) \<and>
                  Queued (stats (fst (snd (publish now1 now2 r m True cw)))) = Queued (stats (fst cw)) + 1))"
proof -
  let ?cw = "(newChannel now i cfg, w)"
  have c: "config (fst ?cw) = cfg" and q: "queue (fst ?cw) = []"
    and s: "Queued (stats (fst ?cw)) = 0"
    by (simp_all add: newChannel_def zero_Stats_def)
  have f: "filter pub_queue ps = ps" using assms(2) by simp
  have 1: "queue (fst (publishes ps ?cw)) = take (nat (ChannelCapacity cfg)) (rev (map pub_msg ps))"
    using publishes_queue [of ?cw ps] assms(1) by (simp only: c q f) simp
  have 2: "int (length (queue (fst (publishes ps ?cw)))) \<le> ChannelCapacity cfg"
    using assms(1) by (simp add: 1)
  have 3: "Queued (stats (fst (publishes ps ?cw))) = int (length (queue (fst (publishes ps ?cw))))"
    using publishes_Queued [of ?cw ps] assms(1) by (simp only: c q s) simp
  have 4: "\<forall>now1 now2 r m cw. config (fst cw) = cfg \<longrightarrow>
            (if ChannelCapacity cfg \<le> int (length (queue (fst cw)))
             then queue (fst (snd (publish now1 now2 r m True cw))) = m # butlast (queue (fst cw)) \<and>
                  Queued (stats (fst (snd (publish now1 now2 r m True cw)))) = Queued (stats (fst cw))
             else queue (fst (snd (publish now1 now2 r m True cw))) = m # queue (fst cw) \<and>
                  Queued (stats (fst (snd (publish now1 now2 r m True cw)))) = Queued (stats (fst cw)) + 1)"
    using assms(1) by (auto simp: publish_queue publish_Queued)
  from 1 2 3 4 show ?thesis by blast
qed

text \<open>
  The theorem at the four publishes of \<open>TestFullChannel\<close>, with the capacity 3.
\<close>

theorem queue_bound_witness:
  "0 < ChannelCapacity intervalConf \<and>
   queue (fst (publishes four_published (newChannel 100 ''test'' intervalConf, init_mem))) = [8, 7, 6] \<and>
   Queued (stats (fst (publishes four_published (newChannel 100 ''test'' intervalConf, init_mem)))) = 3"
proof -
  have cap: "0 < ChannelCapacity intervalConf"
    by (simp add: intervalConf_def zero_Configuration_def)
  have all: "\<forall>p\<in>set four_published. pub_queue p"
    by (simp add: four_published_def pub_queue_def)
  have t: "take (nat (ChannelCapacity intervalConf)) (rev (map pub_msg four_published)) = [8, 7, 6]"
    by (simp add: intervalConf_def zero_Configuration_def four_published_def pub_msg_def)
  show ?thesis
    using queue_bound [OF cap all, of 100 "''test''" init_mem] cap by (simp add: t)
qed

section \<open>The stamps of published messages\<close>

lemma stamp_message_other: "a \<noteq> m \<Longrightarrow> stamp_message now m lm h a = h a"
  by (simp add: stamp_message_def Let_def split: option.splits)

lemma stamp_message_time: "time (stamp_message now m lm h m) = now"
  by (simp add: stamp_message_def Let_def split: option.splits)

lemma stamp_message_etag:
  "etag (stamp_message now m lm h m) =
     (case lm of None \<Rightarrow> 0
      | Some l \<Rightarrow> if l = m then 1 else if time (h l) = now then etag (h l) + 1 else 0)"
  by (simp add: stamp_message_def Let_def split: option.splits)

lemma stamp_message_fields:
  "ContentType (stamp_message now m lm h a) = ContentType (h a) \<and>
   Payload (stamp_message now m lm h a) = Payload (h a) \<and>
   Status (stamp_message now m lm h a) = Status (h a)"
  by (simp add: stamp_message_def Let_def split: option.splits)

lemma publishes_heap_other:
  "a \<notin> pub_msg ` set ps \<Longrightarrow> heap (snd (publishes ps cw)) a = heap (snd cw) a"
  by (induction ps arbitrary: cw) (auto simp: publish1_def stamp_message_other)

lemma publishes_stamps:
  assumes "distinct (map pub_msg ps)"
    and "\<forall>l. lastMessage (fst cw) = Some l \<longrightarrow> l \<notin> pub_msg ` set ps"
  shows "map (stamp_of (heap (snd (publishes ps cw)))) (map pub_msg ps) =
     spec_stamps (map_option (stamp_of (heap (snd cw))) (lastMessage (fst cw))) (map pub_time ps)"
  using assms
proof (induction ps arbitrary: cw)
  case Nil
  then show ?case by simp
next
  case (Cons p ps)
  let ?cw1 = "publish1 p cw"
  let ?m = "pub_msg p"
  have notin: "?m \<notin> pub_msg ` set ps" using Cons.prems(1) by auto
  have lm1: "lastMessage (fst ?cw1) = Some ?m" by (simp add: publish1_def)
  have h1: "heap (snd ?cw1) = stamp_message (fst p) ?m (lastMessage (fst cw)) (heap (snd cw))"
    by (simp add: publish1_def)
  have ne: "\<forall>l. lastMessage (fst cw) = Some l \<longrightarrow> l \<noteq> ?m" using Cons.prems(2) by auto
  define prev where "prev = map_option (stamp_of (heap (snd cw))) (lastMessage (fst cw))"
  define e where "e = (case prev of None \<Rightarrow> 0 | Some pe \<Rightarrow> if fst pe = pub_time p then snd pe + 1 else 0)"
  have s1: "stamp_of (heap (snd ?cw1)) ?m = (pub_time p, e)"
    using ne by (auto simp: h1 stamp_message_time stamp_message_etag pub_time_def stamp_of_def
        e_def prev_def split: option.splits)
  have keep: "stamp_of (heap (snd (publishes ps ?cw1))) ?m = stamp_of (heap (snd ?cw1)) ?m"
    using publishes_heap_other [OF notin, of ?cw1] by (simp add: stamp_of_def)
  have IH: "map (stamp_of (heap (snd (publishes ps ?cw1)))) (map pub_msg ps) =
     spec_stamps (Some (pub_time p, e)) (map pub_time ps)"
    using Cons.IH [of ?cw1] Cons.prems(1) notin by (simp add: lm1 s1)
  have L: "map (stamp_of (heap (snd (publishes (p # ps) cw)))) (map pub_msg (p # ps)) =
     (pub_time p, e) # spec_stamps (Some (pub_time p, e)) (map pub_time ps)"
    using IH keep s1 by simp
  have R: "spec_stamps prev (map pub_time (p # ps)) =
     (pub_time p, e) # spec_stamps (Some (pub_time p, e)) (map pub_time ps)"
    by (simp add: e_def Let_def)
  show ?case
    using L R by (simp only: prev_def)
qed

lemma spec_stamps_above:
  "sorted ts \<Longrightarrow> \<forall>t'\<in>set ts. t \<le> t' \<Longrightarrow> \<forall>s\<in>set (spec_stamps (Some (t, e)) ts). (t, e) < s"
proof (induction ts arbitrary: t e)
  case Nil
  then show ?case by simp
next
  case (Cons t1 ts)
  define e1 where "e1 = (if t = t1 then e + 1 else 0)"
  have unfold: "spec_stamps (Some (t, e)) (t1 # ts) = (t1, e1) # spec_stamps (Some (t1, e1)) ts"
    by (simp add: e1_def Let_def)
  have first: "(t, e) < (t1, e1)" using Cons.prems(2) by (auto simp: less_prod_def e1_def)
  have "\<forall>s\<in>set (spec_stamps (Some (t1, e1)) ts). (t1, e1) < s"
    using Cons.IH [of t1 e1] Cons.prems(1) by simp
  then have "\<forall>s\<in>set (spec_stamps (Some (t1, e1)) ts). (t, e) < s"
    using first by (meson less_trans)
  with first show ?case by (simp only: unfold) simp
qed

lemma spec_stamps_sorted: "sorted ts \<Longrightarrow> sorted_wrt (<) (spec_stamps prev ts)"
proof (induction ts arbitrary: prev)
  case Nil
  then show ?case by simp
next
  case (Cons t ts)
  define e where "e = (case prev of None \<Rightarrow> 0 | Some pe \<Rightarrow> if fst pe = t then snd pe + 1 else 0)"
  have unfold: "spec_stamps prev (t # ts) = (t, e) # spec_stamps (Some (t, e)) ts"
    by (simp add: e_def Let_def)
  have "\<forall>s\<in>set (spec_stamps (Some (t, e)) ts). (t, e) < s"
    using spec_stamps_above [of ts t e] Cons.prems by simp
  moreover have "sorted_wrt (<) (spec_stamps (Some (t, e)) ts)"
    using Cons.IH Cons.prems by simp
  ultimately show ?case by (simp only: unfold) simp
qed

lemma publishes_queue_no_capacity:
  "ChannelCapacity (config (fst cw)) \<le> 0 \<Longrightarrow> queue (fst (publishes ps cw)) = queue (fst cw)"
  by (induction ps arbitrary: cw) (auto simp: publish1_def publish_queue)

text \<open>
  Where the stamps are right: on a new channel, after publishes of message objects that
  are pairwise distinct and nothing else (no \<open>Subscribe\<close> under LIFO in between), with
  clock readings that do not decrease, the stamps the messages carry are the ones of the
  rule \<open>spec_stamps\<close> (etag 0 when the time differs from the time of the message before,
  its etag plus 1 otherwise), they increase strictly in the order of publishing, and in
  the queue every newer message has a strictly greater stamp than every older one.
\<close>

lemma distinct_publishes_stamps:
  assumes "distinct (map pub_msg ps)" and "sorted (map pub_time ps)"
  shows "map (stamp_of (heap (snd (publishes ps (newChannel now i cfg, w))))) (map pub_msg ps) =
           spec_stamps None (map pub_time ps) \<and>
         sorted_wrt (<) (spec_stamps None (map pub_time ps)) \<and>
         sorted_wrt
           (\<lambda>newer older.
              stamp_of (heap (snd (publishes ps (newChannel now i cfg, w)))) older <
              stamp_of (heap (snd (publishes ps (newChannel now i cfg, w)))) newer)
           (queue (fst (publishes ps (newChannel now i cfg, w))))"
proof -
  let ?cw = "(newChannel now i cfg, w)"
  let ?S = "stamp_of (heap (snd (publishes ps ?cw)))"
  have c: "config (fst ?cw) = cfg" and q: "queue (fst ?cw) = []"
    and l: "lastMessage (newChannel now i cfg) = None"
    by (simp_all add: newChannel_def)
  have 1: "map ?S (map pub_msg ps) = spec_stamps None (map pub_time ps)"
    using publishes_stamps [of ps ?cw] assms(1) by (simp add: l)
  have 2: "sorted_wrt (<) (spec_stamps None (map pub_time ps))"
    using assms(2) by (rule spec_stamps_sorted)
  have "sorted_wrt (<) (map ?S (map pub_msg ps))" using 1 2 by simp
  then have "sorted_wrt (\<lambda>p p'. ?S (pub_msg p) < ?S (pub_msg p')) ps"
    by (simp add: sorted_wrt_map)
  then have "sorted_wrt (\<lambda>p p'. ?S (pub_msg p) < ?S (pub_msg p')) (filter pub_queue ps)"
    by (rule sorted_wrt_filter)
  then have "sorted_wrt (\<lambda>a b. ?S a < ?S b) (map pub_msg (filter pub_queue ps))"
    by (simp add: sorted_wrt_map)
  then have r: "sorted_wrt (\<lambda>newer older. ?S older < ?S newer) (rev (map pub_msg (filter pub_queue ps)))"
    by (simp add: sorted_wrt_rev)
  have 3: "sorted_wrt (\<lambda>newer older. ?S older < ?S newer) (queue (fst (publishes ps ?cw)))"
  proof (cases "0 < ChannelCapacity cfg")
    case True
    then have "queue (fst (publishes ps ?cw)) =
       take (nat (ChannelCapacity cfg)) (rev (map pub_msg (filter pub_queue ps)))"
      using publishes_queue [of ?cw ps] by (simp only: c q) simp
    with r show ?thesis by (simp add: sorted_wrt_take)
  next
    case False
    then have "queue (fst (publishes ps ?cw)) = []"
      using publishes_queue_no_capacity [of ?cw ps] by (simp add: newChannel_def)
    then show ?thesis by simp
  qed
  from 1 2 3 show ?thesis by blast
qed

text \<open>
  The lemma at four messages published in the seconds 100, 100, 101 and 101.
\<close>

lemma distinct_publishes_example:
  "distinct (map pub_msg four_published) \<and> sorted (map pub_time four_published) \<and>
   map (stamp_of (heap (snd (publishes four_published (newChannel 100 ''test'' intervalConf, init_mem)))))
     [5, 6, 7, 8] = [(100, 0), (100, 1), (101, 0), (101, 1)]"
proof -
  have d: "distinct (map pub_msg four_published)"
    by (simp add: four_published_def pub_msg_def)
  have s: "sorted (map pub_time four_published)"
    by (simp add: four_published_def pub_time_def)
  have m: "map pub_msg four_published = [5, 6, 7, 8]"
    by (simp add: four_published_def pub_msg_def)
  have e: "spec_stamps None (map pub_time four_published) = [(100, 0), (100, 1), (101, 0), (101, 1)]"
    by (simp add: four_published_def pub_time_def Let_def)
  show ?thesis
    using distinct_publishes_stamps [OF d s, of 100 "''test''" intervalConf init_mem] d s
    by (simp only: m e)
qed

text \<open>
  \<open>publish\<close> reads \<open>c.lastMessage\<close> after it has written the time and the etag 0 into
  \<open>m\<close>. When \<open>c.lastMessage\<close> is \<open>m\<close> itself, the comparison of the times is true
  whatever the clock says and the etag is 0 + 1. So a message object that is published
  again, which \<open>TestLongMediumChannel\<close> does, gets the etag 1: published in the second 100
  and again in the second 101, the object 5 has the etag 1 although the time differs from
  the one before, and the queue holds it twice.
\<close>

lemma republished_stamp:
  "queue (fst (publishes same_twice test_channel)) = [5, 5] \<and>
   stamp_of (heap (snd (publishes same_twice test_channel))) 5 = (101, 1) \<and>
   \<not> stamp_of (heap (snd (publishes same_twice test_channel)))
        (queue (fst (publishes same_twice test_channel)) ! 1)
     < stamp_of (heap (snd (publishes same_twice test_channel)))
        (queue (fst (publishes same_twice test_channel)) ! 0)"
proof -
  have q: "queue (fst (publishes same_twice test_channel)) = [5, 5]"
    by (simp add: same_twice_def test_channel_def eval_defs)
  have s: "stamp_of (heap (snd (publishes same_twice test_channel))) 5 = (101, 1)"
    by (simp add: same_twice_def test_channel_def stamp_of_def eval_defs)
  show ?thesis by (simp add: q s)
qed

text \<open>
  The stamps follow the clock: when \<open>time.Seconds()\<close> steps back between two publishes,
  the later message has the smaller stamp.
\<close>

lemma stamps_follow_clock:
  "stamp_of (heap (snd (publishes clock_back test_channel))) 5 = (101, 0) \<and>
   stamp_of (heap (snd (publishes clock_back test_channel))) 6 = (100, 0)"
  by (simp add: clock_back_def test_channel_def stamp_of_def eval_defs)

text \<open>
  Claim C3 at a LIFO channel of capacity 3, all in the second 100 (so the clock is
  steady), with four distinct messages of the caller: 5, 6 and 7 are published and
  queued with the etags 0, 1 and 2; the first \<open>Subscribe\<close> publishes the conflict message
  with the etag 3; the second \<open>Subscribe\<close> publishes the conflict message again, which is
  now \<open>c.lastMessage\<close>, so it compares the object with itself and gives it the etag 1;
  the message 8 then gets the etag 2. The queue holds 8, 7 and 6, and the older 7 and the
  newer 8 carry the same stamp (100, 2): the stamps are not strictly increasing.
\<close>

theorem stamps_collide:
  "run stamp_collision lifo_new = Inr (projr (run stamp_collision lifo_new)) \<and>
   queue (fst (projr (run stamp_collision lifo_new))) = [8, 7, 6] \<and>
   stamp_of (heap (snd (projr (run stamp_collision lifo_new)))) 7 = (100, 2) \<and>
   stamp_of (heap (snd (projr (run stamp_collision lifo_new)))) 8 = (100, 2)"
  by (simp add: stamp_collision_def lifo_new_def Publish_def Subscribe_def concurrency_def
      history_def stamp_of_def eval_defs)

section \<open>The statistics as text, and the collector, at inputs where they go wrong\<close>

lemma plain_ago_never_published:
  "LastPublished s \<le> 0 \<Longrightarrow>
   LastRequested (plain_ago now1 now2 s) = - 1 \<and>
   LastPublished (plain_ago now1 now2 s) = LastPublished s"
  by (simp add: plain_ago_def Let_def)

lemma requested_only_stats:
  "stats requested_only = zero_Stats\<lparr>Created := 100, LastRequested := 100\<rparr>"
  by (simp add: requested_only_def test_channel_def Subscribe_def concurrency_def history_def
      eval_defs)

text \<open>
  Claim C5 at a channel that was requested in the second 100 and never published to,
  asked for its statistics as \<open>text/plain\<close> in the second 150: the claim has 50 for
  \<open>lastRequested\<close> and -1 for \<open>lastPublished\<close>; \<open>writeStats\<close> writes -1 and 0, since the
  \<open>else\<close> branch for \<open>LastPublished\<close> assigns to \<open>LastRequested\<close>.
\<close>

theorem writeStats_never_published:
  "LastRequested (stats requested_only) = 100 \<and> LastPublished (stats requested_only) = 0 \<and>
   writeStats 150 150 ''text/plain'' requested_only =
     (''text/plain'', plain_format, [0, - 1, 0, 0, 0, 0])"
  by (simp add: requested_only_stats zero_Stats_def writeStats_def split2_def statFormats_def
      plain_ago_def Let_def)

lemma Swap_same: "Swap cs i j = cs"
  by (simp add: Swap_def Let_def)

lemma sort_Sort_same: "sort_Sort sw cs = cs"
  by (induction sw arbitrary: cs) (simp_all add: Swap_same)

text \<open>
  Claim C4 at two pushers, collected at 200 seconds, whatever \<open>sort.Sort\<close> swaps. With
  \<open>MaxChannelIdleTime\<close> 0 and one channel where \<open>MaxChannels\<close> is 5, the channel made in
  the second 100 is collected: the limit is the present second. With an idle limit of
  150 and no cap, the channel of the second 100 stays when the map yields the channel of
  the second 190 first: \<open>Swap\<close> changes nothing, so the slice is not sorted, and the loop
  stops at the first channel it keeps.
\<close>

theorem GC_collects_wrongly:
  "fst (GC 200000000000 sw tm receiving (one_channel_pusher, init_mem)) = 1 \<and>
   channels (fst (snd (snd (GC 200000000000 sw tm receiving (one_channel_pusher, init_mem))))) = [] \<and>
   fst (GC 200000000000 sw tm receiving (two_channel_pusher, init_mem)) = 0 \<and>
   channels (fst (snd (snd (GC 200000000000 sw tm receiving (two_channel_pusher, init_mem))))) =
     channels two_channel_pusher"
  by (simp add: GC_def Let_def sort_Sort_same one_channel_pusher_def two_channel_pusher_def
      count_only_conf_def idle_conf_def zero_Configuration_def quot_def stamp_def
      newChannel_def zero_Stats_def)

section \<open>Every operation keeps the invariants\<close>

lemma publish_subscribers [simp]:
  "subscribers (fst (snd (publish now1 now2 r m q cw))) = []"
  by (simp add: publish_def enqueue_def Let_def)

lemma publish_Subscribers [simp]:
  "Subscribers (stats (fst (snd (publish now1 now2 r m q cw)))) = 0"
  by (simp add: publish_def enqueue_def Let_def)

lemma publish_chans:
  "chans (snd (snd (publish now1 now2 r m q cw))) s =
     (if s \<in> set (subscribers (fst cw)) then Some (Closed (if r s then Some m else None))
      else chans (snd cw) s)"
  by (simp add: publish_def Let_def deliver_fst_snd)

lemma publish_count:
  "fst (publish now1 now2 r m q cw) = int (length (filter r (subscribers (fst cw))))"
  by (simp add: publish_def Let_def deliver_fst_snd)

lemma publish_next [simp]:
  "next_chan (snd (snd (publish now1 now2 r m q cw))) = next_chan (snd cw)"
  "next_msg (snd (snd (publish now1 now2 r m q cw))) = next_msg (snd cw)"
  by (simp_all add: publish_def Let_def)

lemma publish_Published:
  "Published (stats (fst (snd (publish now1 now2 r m q cw)))) = Published (stats (fst cw)) + 1"
  by (simp add: publish_def enqueue_def Let_def)

lemma publish_Delivered:
  "Delivered (stats (fst (snd (publish now1 now2 r m q cw)))) =
     Delivered (stats (fst cw)) + fst (publish now1 now2 r m q cw)"
  by (simp add: publish_def enqueue_def Let_def)

lemma channel_ok_publish:
  assumes "channel_ok cw"
  shows "channel_ok (snd (publish now1 now2 r m q cw))"
proof -
  have "{s. chans (snd (snd (publish now1 now2 r m q cw))) s = Some Parked} = {}"
    using assms by (auto simp: publish_chans channel_ok_def)
  moreover have "\<forall>s. next_chan (snd cw) \<le> s \<longrightarrow> s \<notin> set (subscribers (fst cw))"
    using assms by (auto simp: channel_ok_def)
  ultimately show ?thesis
    using assms by (simp add: channel_ok_def publish_chans)
qed

lemma channel_ok_requested:
  "channel_ok (c\<lparr>stats := (stats c)\<lparr>LastRequested := t\<rparr>\<rparr>, w) = channel_ok (c, w)"
  by (simp add: channel_ok_def)

lemma channel_ok_concurrency:
  "channel_ok cw \<Longrightarrow> concurrency now1 now2 r cw = Some cw1 \<Longrightarrow> channel_ok cw1"
  by (auto simp: concurrency_def channel_ok_publish split: if_splits)

lemma channel_ok_history:
  assumes "channel_ok cw"
  shows "channel_ok (snd (history since et cw))"
proof -
  let ?n = "next_chan (snd cw)"
  have fresh: "chans (snd cw) ?n = None" using assms by (simp add: channel_ok_def)
  then have notin: "?n \<notin> set (subscribers (fst cw))" using assms by (auto simp: channel_ok_def)
  have "{s. ((chans (snd cw))(?n := Some Parked)) s = Some Parked} = insert ?n (set (subscribers (fst cw)))"
    using assms by (auto simp: channel_ok_def)
  then show ?thesis
    using assms notin by (auto simp: history_def Let_def channel_ok_def split: option.splits)
qed

lemma channel_ok_Subscribe:
  assumes "channel_ok cw"
  shows "channel_ok (snd (Subscribe nowr now1 now2 r since et cw))"
proof -
  let ?c0 = "(fst cw)\<lparr>stats := (stats (fst cw))\<lparr>LastRequested := nowr\<rparr>\<rparr>"
  have ok0: "channel_ok (?c0, snd cw)" using assms by (simp add: channel_ok_requested)
  show ?thesis
  proof (cases "concurrency now1 now2 r (?c0, snd cw)")
    case None
    then show ?thesis using ok0 by (simp add: Subscribe_def Let_def)
  next
    case (Some cw1)
    then have "channel_ok cw1" using ok0 channel_ok_concurrency by blast
    then show ?thesis using Some by (simp add: Subscribe_def Let_def channel_ok_history)
  qed
qed

lemma channel_ok_PublishString:
  "channel_ok cw \<Longrightarrow> channel_ok (snd (PublishString now1 now2 r s q cw))"
proof -
  assume ok: "channel_ok cw"
  let ?w1 = "(snd cw)\<lparr>heap := (heap (snd cw))
                  (next_msg (snd cw) := \<lparr>ContentType = ''text/plain'', Payload = Some s, Status = 200,
                         etag = 0, time = 0\<rparr>),
                next_msg := Suc (next_msg (snd cw))\<rparr>"
  have "channel_ok (fst cw, ?w1)" using ok by (simp add: channel_ok_def)
  then show ?thesis by (simp add: PublishString_def Let_def channel_ok_publish)
qed

lemma channel_ok_Unsubscribe:
  assumes "channel_ok cw" and "Unsubscribe e cw = Inr cw'"
  shows "channel_ok cw'"
proof -
  have p: "chans (snd cw) e = Some Parked"
    using assms(2) by (auto simp: Unsubscribe_def Let_def split: option.splits wait_chan.splits)
  then have cw': "cw' = ((fst cw)\<lparr>subscribers := remove1 e (subscribers (fst cw)),
                 stats := (stats (fst cw))\<lparr>Subscribers := int (length (remove1 e (subscribers (fst cw))))\<rparr>\<rparr>,
               (snd cw)\<lparr>chans := (chans (snd cw))(e := Some (Closed None))\<rparr>)"
    using assms(2) by (simp add: Unsubscribe_def Let_def)
  have "set (remove1 e (subscribers (fst cw))) = set (subscribers (fst cw)) - {e}"
    using assms(1) by (simp add: channel_ok_def)
  moreover have "e < next_chan (snd cw)"
    using assms(1) p by (force simp: channel_ok_def not_le [symmetric])
  ultimately show ?thesis
    using assms(1) by (auto simp: cw' channel_ok_def)
qed

lemma channel_ok_new: "channel_ok (newChannel now i cfg, init_mem)"
  by (simp add: channel_ok_def newChannel_def init_mem_def zero_Stats_def)

lemma channel_ok_exec: "channel_ok cw \<Longrightarrow> exec x cw = Inr cw' \<Longrightarrow> channel_ok cw'"
  by (cases x)
    (auto simp: Publish_def channel_ok_publish channel_ok_PublishString channel_ok_Subscribe
      channel_ok_Unsubscribe split: option.splits)

lemma channel_ok_run: "channel_ok cw \<Longrightarrow> run xs cw = Inr cw' \<Longrightarrow> channel_ok cw'"
  by (induction xs arbitrary: cw) (auto split: sum.splits dest: channel_ok_exec)

section \<open>Concurrent subscribers\<close>

lemmas mode_defs = ConcurrencyModeBroadcast_def ConcurrencyModeFILO_def ConcurrencyModeLIFO_def
  PollingMechanismLong_def PollingMechanismInterval_def

text \<open>
  Claim C7. Under FILO, in every state of a channel that has a parked subscriber (and
  whose counter \<open>Subscribers\<close> is the length of the list of subscribers, as it is in
  every state a new channel reaches, by \<open>channel_ok_run\<close>), \<open>Subscribe\<close> returns at once with no wait-slot and the conflict message; the channel
  changes in \<open>LastRequested\<close> only, so the list of parked subscribers and the queue are
  unchanged, and the memory, with every wait-slot, is unchanged.
\<close>

theorem FILO_conflict:
  assumes "ConcurrencyMode (config (fst cw)) = ConcurrencyModeFILO"
    and "Subscribers (stats (fst cw)) = int (length (subscribers (fst cw)))"
    and "subscribers (fst cw) \<noteq> []"
  shows "fst (Subscribe nowr now1 now2 receiving since et cw) = (None, Some conflictMessage) \<and>
         fst (snd (Subscribe nowr now1 now2 receiving since et cw)) =
           (fst cw)\<lparr>stats := (stats (fst cw))\<lparr>LastRequested := nowr\<rparr>\<rparr> \<and>
         subscribers (fst (snd (Subscribe nowr now1 now2 receiving since et cw))) = subscribers (fst cw) \<and>
         queue (fst (snd (Subscribe nowr now1 now2 receiving since et cw))) = queue (fst cw) \<and>
         chans (snd (snd (Subscribe nowr now1 now2 receiving since et cw))) = chans (snd cw) \<and>
         snd (snd (Subscribe nowr now1 now2 receiving since et cw)) = snd cw"
proof -
  have "0 < Subscribers (stats (fst cw))"
    using assms(2,3) by simp
  then have "concurrency now1 now2 receiving
      ((fst cw)\<lparr>stats := (stats (fst cw))\<lparr>LastRequested := nowr\<rparr>\<rparr>, snd cw) = None"
    using assms(1) by (simp add: concurrency_def mode_defs)
  then show ?thesis by (simp add: Subscribe_def Let_def)
qed

lemma parked_eval:
  "subscribers (fst long_parked) = [0] \<and> subscribers (fst filo_parked) = [0] \<and>
   subscribers (fst lifo_parked) = [0]"
  by (simp add: long_parked_def filo_parked_def lifo_parked_def Subscribe_def concurrency_def
      history_def eval_defs)

lemma parked_config:
  "config (fst long_parked) = longConf \<and> config (fst filo_parked) = filoConf \<and>
   config (fst lifo_parked) = lifoConf"
  by (simp add: long_parked_def filo_parked_def lifo_parked_def Subscribe_def concurrency_def
      history_def publish_def enqueue_def Let_def newChannel_def mode_defs
      longConf_def filoConf_def lifoConf_def zero_Configuration_def)

lemma parked_ok: "channel_ok long_parked \<and> channel_ok filo_parked \<and> channel_ok lifo_parked"
  by (simp add: long_parked_def filo_parked_def lifo_parked_def channel_ok_Subscribe channel_ok_new)

text \<open>
  The theorem at a FILO channel with the subscriber 0 parked.
\<close>

theorem FILO_conflict_witness:
  "ConcurrencyMode (config (fst filo_parked)) = ConcurrencyModeFILO \<and>
   Subscribers (stats (fst filo_parked)) = int (length (subscribers (fst filo_parked))) \<and>
   subscribers (fst filo_parked) = [0] \<and>
   fst (Subscribe 101 101 101 everybody 0 0 filo_parked) = (None, Some conflictMessage) \<and>
   subscribers (fst (snd (Subscribe 101 101 101 everybody 0 0 filo_parked))) = [0] \<and>
   snd (snd (Subscribe 101 101 101 everybody 0 0 filo_parked)) = snd filo_parked"
proof -
  have m: "ConcurrencyMode (config (fst filo_parked)) = ConcurrencyModeFILO"
    using parked_config by (simp add: filoConf_def)
  have ok: "Subscribers (stats (fst filo_parked)) = int (length (subscribers (fst filo_parked)))"
    using parked_ok by (simp add: channel_ok_def)
  have s: "subscribers (fst filo_parked) \<noteq> []" using parked_eval by simp
  show ?thesis
    using FILO_conflict [OF m ok s, of 101 101 101 everybody 0 0] m ok parked_eval by simp
qed

lemma synthetic_ok_publish:
  "synthetic_ok (snd cw) \<Longrightarrow> synthetic_ok (snd (snd (publish now1 now2 r m q cw)))"
  by (simp add: synthetic_ok_def stamp_message_fields)

lemma synthetic_ok_init: "synthetic_ok init_mem"
  by (simp add: synthetic_ok_def init_mem_def zero_Message_def conflictMessage_def goneMessage_def)

lemma synthetic_ok_history:
  "synthetic_ok (snd cw) \<Longrightarrow> synthetic_ok (snd (snd (history since et cw)))"
  by (simp add: history_def Let_def synthetic_ok_def split: option.splits)

lemma synthetic_ok_Subscribe:
  "synthetic_ok (snd cw) \<Longrightarrow> synthetic_ok (snd (snd (Subscribe nowr now1 now2 r since et cw)))"
  by (auto simp: Subscribe_def Let_def concurrency_def synthetic_ok_history synthetic_ok_publish
      split: option.splits if_splits)

text \<open>
  Claim C8, amended. Under LIFO, \<open>Subscribe\<close> first publishes the conflict message (status
  409) without queueing it: every parked subscriber that is blocked receiving on its
  wait-slot is handed the conflict message, every other parked subscriber's wait-slot is
  closed with nothing; after that no wait-slot is open, the list is empty and
  \<open>Subscribers\<close> is 0. Then the call goes on as any other: the history lookup and, when it
  finds nothing under long polling, a new wait-slot, the only one parked.
\<close>

theorem LIFO_conflict:
  assumes "ConcurrencyMode (config (fst cw)) = ConcurrencyModeLIFO" and "channel_ok cw"
    and "synthetic_ok (snd cw)"
    and "concurrency now1 now2 receiving
           ((fst cw)\<lparr>stats := (stats (fst cw))\<lparr>LastRequested := nowr\<rparr>\<rparr>, snd cw) = Some (c1, w1)"
  shows "(c1, w1) = snd (publish now1 now2 receiving conflictMessage False
                      ((fst cw)\<lparr>stats := (stats (fst cw))\<lparr>LastRequested := nowr\<rparr>\<rparr>, snd cw)) \<and>
         (\<forall>s\<in>set (subscribers (fst cw)).
            chans w1 s = Some (Closed (if receiving s then Some conflictMessage else None))) \<and>
         Status (heap w1 conflictMessage) = 409 \<and>
         (\<forall>s. chans w1 s \<noteq> Some Parked) \<and>
         subscribers c1 = [] \<and> Subscribers (stats c1) = 0 \<and>
         Subscribe nowr now1 now2 receiving since et cw = history since et (c1, w1) \<and>
         (scan (heap w1) since et (queue c1) (length (queue c1)) = None \<and>
          PollingMechanism (config c1) \<noteq> PollingMechanismInterval \<longrightarrow>
            fst (Subscribe nowr now1 now2 receiving since et cw) = (Some (next_chan (snd cw)), None) \<and>
            subscribers (fst (snd (Subscribe nowr now1 now2 receiving since et cw))) = [next_chan (snd cw)] \<and>
            Subscribers (stats (fst (snd (Subscribe nowr now1 now2 receiving since et cw)))) = 1 \<and>
            chans (snd (snd (Subscribe nowr now1 now2 receiving since et cw))) (next_chan (snd cw)) = Some Parked)"
proof -
  let ?c0 = "(fst cw)\<lparr>stats := (stats (fst cw))\<lparr>LastRequested := nowr\<rparr>\<rparr>"
  let ?r = "publish now1 now2 receiving conflictMessage False (?c0, snd cw)"
  have eq: "(c1, w1) = snd ?r"
    using assms(1,4) by (simp add: concurrency_def)
  then have c1: "c1 = fst (snd ?r)" and w1: "w1 = snd (snd ?r)"
    by (metis fst_conv, metis snd_conv)
  have ok0: "channel_ok (?c0, snd cw)" using assms(2) by (simp add: channel_ok_requested)
  have ok1: "channel_ok (c1, w1)" using channel_ok_publish [OF ok0] eq by simp
  have 2: "\<forall>s\<in>set (subscribers (fst cw)).
            chans w1 s = Some (Closed (if receiving s then Some conflictMessage else None))"
    by (simp add: w1 publish_chans)
  have "synthetic_ok w1"
    using synthetic_ok_publish [of "(?c0, snd cw)"] assms(3) by (simp add: w1)
  then have 8: "Status (heap w1 conflictMessage) = 409" by (simp add: synthetic_ok_def)
  have 4: "subscribers c1 = []" and 5: "Subscribers (stats c1) = 0"
    by (simp_all add: c1)
  have 3: "\<forall>s. chans w1 s \<noteq> Some Parked"
    using ok1 4 by (auto simp: channel_ok_def)
  have 6: "Subscribe nowr now1 now2 receiving since et cw = history since et (c1, w1)"
    using assms(4) by (simp add: Subscribe_def Let_def)
  have n: "next_chan w1 = next_chan (snd cw)" by (simp add: w1)
  have 7: "scan (heap w1) since et (queue c1) (length (queue c1)) = None \<and>
          PollingMechanism (config c1) \<noteq> PollingMechanismInterval \<longrightarrow>
            fst (Subscribe nowr now1 now2 receiving since et cw) = (Some (next_chan (snd cw)), None) \<and>
            subscribers (fst (snd (Subscribe nowr now1 now2 receiving since et cw))) = [next_chan (snd cw)] \<and>
            Subscribers (stats (fst (snd (Subscribe nowr now1 now2 receiving since et cw)))) = 1 \<and>
            chans (snd (snd (Subscribe nowr now1 now2 receiving since et cw))) (next_chan (snd cw)) = Some Parked"
    by (simp add: 6 history_def Let_def 4 5 n)
  from eq 2 3 4 5 6 7 8 show ?thesis by blast
qed

lemma parked_synthetic:
  "synthetic_ok (snd long_parked) \<and> synthetic_ok (snd filo_parked) \<and> synthetic_ok (snd lifo_parked)"
  by (simp add: long_parked_def filo_parked_def lifo_parked_def synthetic_ok_Subscribe
      synthetic_ok_init)

lemma lifo_parked_next: "next_chan (snd lifo_parked) = 1 \<and> queue (fst lifo_parked) = []"
  by (simp add: lifo_parked_def Subscribe_def concurrency_def history_def eval_defs)

text \<open>
  The theorem at a LIFO channel with the subscriber 0 parked and blocked receiving: it
  is handed the conflict message, and the new request parks as subscriber 1.
\<close>

theorem LIFO_conflict_witness:
  "ConcurrencyMode (config (fst lifo_parked)) = ConcurrencyModeLIFO \<and> channel_ok lifo_parked \<and>
   synthetic_ok (snd lifo_parked) \<and>
   concurrency 101 101 everybody (lifo_requested, snd lifo_parked) = Some lifo_conflicted \<and>
   subscribers (fst lifo_parked) = [0] \<and>
   chans (snd lifo_conflicted) 0 = Some (Closed (Some conflictMessage)) \<and>
   Status (heap (snd lifo_conflicted) conflictMessage) = 409 \<and>
   fst (Subscribe 101 101 101 everybody 0 0 lifo_parked) = (Some 1, None) \<and>
   subscribers (fst (snd (Subscribe 101 101 101 everybody 0 0 lifo_parked))) = [1]"
proof -
  have m: "ConcurrencyMode (config (fst lifo_parked)) = ConcurrencyModeLIFO"
    using parked_config by (simp add: lifoConf_def)
  have ok: "channel_ok lifo_parked" using parked_ok by simp
  have sy: "synthetic_ok (snd lifo_parked)" using parked_synthetic by simp
  have c: "concurrency 101 101 everybody
       ((fst lifo_parked)\<lparr>stats := (stats (fst lifo_parked))\<lparr>LastRequested := 101\<rparr>\<rparr>, snd lifo_parked)
     = Some (fst lifo_conflicted, snd lifo_conflicted)"
    using m by (simp add: concurrency_def lifo_conflicted_def lifo_requested_def)
  have q: "queue (fst lifo_conflicted) = []"
    using lifo_parked_next by (simp add: lifo_conflicted_def lifo_requested_def publish_queue)
  have p: "PollingMechanism (config (fst lifo_conflicted)) \<noteq> PollingMechanismInterval"
    using parked_config
    by (simp add: lifo_conflicted_def lifo_requested_def lifoConf_def longConf_def
        zero_Configuration_def mode_defs)
  have e: "everybody 0" by (simp add: everybody_def)
  have c': "concurrency 101 101 everybody (lifo_requested, snd lifo_parked) = Some lifo_conflicted"
    using c by (simp add: lifo_requested_def)
  have sc: "scan (heap (snd lifo_conflicted)) 0 0 (queue (fst lifo_conflicted))
              (length (queue (fst lifo_conflicted))) = None"
    by (simp add: q)
  note T = LIFO_conflict [OF m ok sy c, of 0 0]
  have s0: "subscribers (fst lifo_parked) = [0]" using parked_eval by simp
  have a: "chans (snd lifo_conflicted) 0 = Some (Closed (Some conflictMessage))"
    using T [THEN conjunct2, THEN conjunct1] s0 e by simp
  have b: "Status (heap (snd lifo_conflicted) conflictMessage) = 409"
    using T by blast
  have "fst (Subscribe 101 101 101 everybody 0 0 lifo_parked) = (Some (next_chan (snd lifo_parked)), None) \<and>
      subscribers (fst (snd (Subscribe 101 101 101 everybody 0 0 lifo_parked))) = [next_chan (snd lifo_parked)]"
    using T sc p by blast
  then have d: "fst (Subscribe 101 101 101 everybody 0 0 lifo_parked) = (Some 1, None) \<and>
      subscribers (fst (snd (Subscribe 101 101 101 everybody 0 0 lifo_parked))) = [1]"
    using lifo_parked_next by simp
  from m ok sy c' s0 a b d show ?thesis by blast
qed

text \<open>
  Claim C8 as stated fails for a parked subscriber whose handler has not reached its
  receive yet: the send is in a \<open>select\<close> with a \<open>default\<close>, so the wait-slot 0 is closed
  and nothing was delivered to it.
\<close>

theorem LIFO_conflict_counterexample:
  "subscribers (fst lifo_parked) = [0] \<and> chans (snd lifo_parked) 0 = Some Parked \<and>
   chans (snd (snd (Subscribe 101 101 101 nobody 0 0 lifo_parked))) 0 = Some (Closed None)"
  by (simp add: lifo_parked_def Subscribe_def concurrency_def history_def eval_defs)

section \<open>The synthetic messages, and publishing through the pointer\<close>





text \<open>
  Claim C10. \<open>Publish\<close> of a pointer that is not nil is \<open>publish\<close>, which writes the time
  into the object the caller passed: the heap changes at that address only, no message
  is allocated, and the channel's last message is that address. Published a second
  time, the object carries the second time and the etag 1, whatever its first stamp was;
  and when both publishes queue it on a channel with room for two, the two newest queue
  entries are the same address, so both read the latest stamp.
\<close>

theorem Publish_in_place:
  "Publish now1 now2 r (Some m) q cw = Inr (publish now1 now2 r m q cw) \<and>
   time (heap (snd (snd (publish now1 now2 r m q cw))) m) = now1 \<and>
   (\<forall>a. a \<noteq> m \<longrightarrow> heap (snd (snd (publish now1 now2 r m q cw))) a = heap (snd cw) a) \<and>
   next_msg (snd (snd (publish now1 now2 r m q cw))) = next_msg (snd cw) \<and>
   lastMessage (fst (snd (publish now1 now2 r m q cw))) = Some m \<and>
   stamp_of (heap (snd (snd (publish now1' now2' r' m q' (snd (publish now1 now2 r m q cw)))))) m
     = (now1', 1) \<and>
   (2 \<le> ChannelCapacity (config (fst cw)) \<longrightarrow>
      take 2 (queue (fst (snd (publish now1' now2' r' m True (snd (publish now1 now2 r m True cw))))))
        = [m, m])"
proof -
  have 1: "Publish now1 now2 r (Some m) q cw = Inr (publish now1 now2 r m q cw)"
    by (simp add: Publish_def)
  have 2: "time (heap (snd (snd (publish now1 now2 r m q cw))) m) = now1"
    by (simp add: stamp_message_time)
  have 3: "\<forall>a. a \<noteq> m \<longrightarrow> heap (snd (snd (publish now1 now2 r m q cw))) a = heap (snd cw) a"
    by (simp add: stamp_message_other)
  have 6: "stamp_of (heap (snd (snd (publish now1' now2' r' m q' (snd (publish now1 now2 r m q cw)))))) m
     = (now1', 1)"
    by (simp add: stamp_of_def stamp_message_time stamp_message_etag)
  have 7: "2 \<le> ChannelCapacity (config (fst cw)) \<longrightarrow>
      take 2 (queue (fst (snd (publish now1' now2' r' m True (snd (publish now1 now2 r m True cw))))))
        = [m, m]"
  proof
    assume cap: "2 \<le> ChannelCapacity (config (fst cw))"
    let ?q1 = "queue (fst (snd (publish now1 now2 r m True cw)))"
    have "\<exists>xs. ?q1 = m # xs"
      using cap by (simp add: publish_queue)
    then obtain xs where q1: "?q1 = m # xs" by blast
    have full: "ChannelCapacity (config (fst cw)) \<le> int (length ?q1) \<Longrightarrow> xs \<noteq> []"
      using cap by (auto simp: q1)
    show "take 2 (queue (fst (snd (publish now1' now2' r' m True (snd (publish now1 now2 r m True cw))))))
        = [m, m]"
      using cap full by (auto simp: publish_queue [of now1' now2' r' m True] q1 numeral_2_eq_2)
  qed
  from 1 2 3 6 7 show ?thesis by simp
qed

text \<open>
  The theorem at the object 5, published and queued in the seconds 100 and 101 on a
  channel of capacity 3.
\<close>

theorem Publish_in_place_witness:
  "2 \<le> ChannelCapacity (config (fst test_channel)) \<and>
   take 2 (queue (fst (snd (publish 101 101 nobody 5 True (snd (publish 100 100 nobody 5 True test_channel))))))
     = [5, 5] \<and>
   stamp_of (heap (snd (snd (publish 101 101 nobody 5 True (snd (publish 100 100 nobody 5 True test_channel)))))) 5
     = (101, 1)"
proof -
  have cap: "2 \<le> ChannelCapacity (config (fst test_channel))"
    by (simp add: test_channel_def newChannel_def intervalConf_def zero_Configuration_def)
  show ?thesis
    using Publish_in_place [of 100 100 nobody 5 True test_channel 101 101 nobody True] cap
    by simp
qed

section \<open>The counters of a channel\<close>

lemma history_counters:
  "Published (stats (fst (snd (history since et cw)))) = Published (stats (fst cw)) \<and>
   config (fst (snd (history since et cw))) = config (fst cw) \<and>
   Delivered (stats (fst (snd (history since et cw)))) =
     Delivered (stats (fst cw)) +
     of_bool_int (scan (heap (snd cw)) since et (queue (fst cw)) (length (queue (fst cw))) \<noteq> None)"
  by (auto simp: history_def Let_def of_bool_int_def split: option.splits)

lemma Subscribe_counters:
  "Published (stats (fst (snd (Subscribe nowr now1 now2 r since et cw)))) =
     Published (stats (fst cw)) +
     of_bool_int (ConcurrencyMode (config (fst cw)) = ConcurrencyModeLIFO) \<and>
   config (fst (snd (Subscribe nowr now1 now2 r since et cw))) = config (fst cw) \<and>
   Delivered (stats (fst (snd (Subscribe nowr now1 now2 r since et cw)))) =
     Delivered (stats (fst cw)) +
     delivered_count (OpSubscribe nowr now1 now2 r since et) cw +
     of_bool_int (immediate_hit (OpSubscribe nowr now1 now2 r since et) cw)"
proof (cases "ConcurrencyMode (config (fst cw)) = ConcurrencyModeLIFO")
  case True
  then show ?thesis
    by (simp add: Subscribe_def Let_def concurrency_def history_counters publish_Published
        publish_Delivered of_bool_int_def)
next
  case False
  then show ?thesis
    by (auto simp: Subscribe_def Let_def concurrency_def history_counters of_bool_int_def)
qed

lemma exec_counters:
  assumes "exec x cw = Inr cw'"
  shows "Published (stats (fst cw')) =
           Published (stats (fst cw)) + of_bool_int (publish_call x) +
           of_bool_int (subscribe_call x \<and> ConcurrencyMode (config (fst cw)) = ConcurrencyModeLIFO) \<and>
         config (fst cw') = config (fst cw) \<and>
         Delivered (stats (fst cw')) =
           Delivered (stats (fst cw)) + delivered_count x cw + of_bool_int (immediate_hit x cw)"
proof (cases x)
  case (OpPublish now1 now2 r m q)
  with assms obtain a where m: "m = Some a"
    by (cases m) (auto simp: Publish_def)
  with assms OpPublish have "cw' = snd (publish now1 now2 r a q cw)"
    by (auto simp: Publish_def)
  then show ?thesis
    using OpPublish m by (simp add: Publish_def publish_Published publish_Delivered of_bool_int_def)
next
  case (OpPublishString now1 now2 r s q)
  with assms have "cw' = snd (PublishString now1 now2 r s q cw)" by auto
  then show ?thesis
    using OpPublishString
    by (simp add: PublishString_def Let_def publish_Published publish_Delivered of_bool_int_def)
next
  case (OpSubscribe nowr now1 now2 r since et)
  with assms have "cw' = snd (Subscribe nowr now1 now2 r since et cw)" by auto
  then show ?thesis
    using OpSubscribe Subscribe_counters [of nowr now1 now2 r since et cw]
    by (simp add: of_bool_int_def)
next
  case (OpUnsubscribe e)
  with assms show ?thesis
    by (auto simp: Unsubscribe_def Let_def of_bool_int_def split: option.splits wait_chan.splits)
qed

lemma run_counters:
  assumes "run xs cw = Inr cw'"
  shows "Published (stats (fst cw')) =
           Published (stats (fst cw)) + int (length (filter publish_call xs)) +
           (if ConcurrencyMode (config (fst cw)) = ConcurrencyModeLIFO
            then int (length (filter subscribe_call xs)) else 0) \<and>
         config (fst cw') = config (fst cw) \<and>
         Delivered (stats (fst cw')) =
           Delivered (stats (fst cw)) + tally delivered_count xs cw +
           tally (\<lambda>x s. of_bool_int (immediate_hit x s)) xs cw"
  using assms
proof (induction xs arbitrary: cw)
  case Nil
  then show ?case by simp
next
  case (Cons x xs)
  then obtain cw1 where e: "exec x cw = Inr cw1" and r: "run xs cw1 = Inr cw'"
    by (auto split: sum.splits)
  note E = exec_counters [OF e]
  note R = Cons.IH [OF r]
  have cfg: "config (fst cw1) = config (fst cw)" using E by simp
  have t1: "tally delivered_count (x # xs) cw = delivered_count x cw + tally delivered_count xs cw1"
    and t2: "tally (\<lambda>x s. of_bool_int (immediate_hit x s)) (x # xs) cw =
       of_bool_int (immediate_hit x cw) + tally (\<lambda>x s. of_bool_int (immediate_hit x s)) xs cw1"
    using e by simp_all
  have P: "Published (stats (fst cw')) =
           Published (stats (fst cw)) + int (length (filter publish_call (x # xs))) +
           (if ConcurrencyMode (config (fst cw)) = ConcurrencyModeLIFO
            then int (length (filter subscribe_call (x # xs))) else 0)"
    using E R by (simp add: cfg of_bool_int_def)
  have C: "config (fst cw') = config (fst cw)" using R cfg by simp
  have D: "Delivered (stats (fst cw')) =
           Delivered (stats (fst cw)) + tally delivered_count (x # xs) cw +
           tally (\<lambda>x s. of_bool_int (immediate_hit x s)) (x # xs) cw"
    using E R by (simp add: e)
  from P C D show ?case by blast
qed

text \<open>
  Claim C9, amended. After any sequence of calls of \<open>Publish\<close>, \<open>PublishString\<close>,
  \<open>Subscribe\<close> and \<open>Unsubscribe\<close> on a new channel that did not panic, under any
  configuration: \<open>Published\<close> is the number of calls of \<open>Publish\<close> and \<open>PublishString\<close>,
  plus, under LIFO, the number of calls of \<open>Subscribe\<close>, each of which publishes the
  conflict message; \<open>Delivered\<close> is the sum of the counts these publishes returned plus
  the number of times \<open>Subscribe\<close> returned a message of the queue; and \<open>Subscribers\<close> is
  the length of the list of subscribers, which holds every open wait-slot once.
\<close>

theorem counter_consistency:
  assumes "run xs (newChannel now i cfg, init_mem) = Inr cw"
  shows "Published (stats (fst cw)) =
           int (length (filter publish_call xs)) +
           (if ConcurrencyMode cfg = ConcurrencyModeLIFO
            then int (length (filter subscribe_call xs)) else 0) \<and>
         Delivered (stats (fst cw)) =
           tally delivered_count xs (newChannel now i cfg, init_mem) +
           tally (\<lambda>x s. of_bool_int (immediate_hit x s)) xs (newChannel now i cfg, init_mem) \<and>
         Subscribers (stats (fst cw)) = int (length (subscribers (fst cw))) \<and>
         distinct (subscribers (fst cw)) \<and>
         set (subscribers (fst cw)) = {s. chans (snd cw) s = Some Parked}"
proof -
  have z: "Published (stats (newChannel now i cfg)) = 0" "Delivered (stats (newChannel now i cfg)) = 0"
    "config (newChannel now i cfg) = cfg"
    by (simp_all add: newChannel_def zero_Stats_def)
  have "channel_ok cw"
    using channel_ok_run [OF channel_ok_new assms] .
  then have S: "Subscribers (stats (fst cw)) = int (length (subscribers (fst cw))) \<and>
         distinct (subscribers (fst cw)) \<and>
         set (subscribers (fst cw)) = {s. chans (snd cw) s = Some Parked}"
    by (simp add: channel_ok_def)
  show ?thesis
    using run_counters [OF assms] S by (simp add: z)
qed



lemma three_calls_run: "run three_calls (newChannel 100 ''test'' lifoConf, init_mem) = Inr three_done"
  by (simp add: three_calls_def three_done_def lifo_parked_def)

lemma three_calls_tally:
  "tally delivered_count three_calls (newChannel 100 ''test'' lifoConf, init_mem) = 1 \<and>
   tally (\<lambda>x s. of_bool_int (immediate_hit x s)) three_calls (newChannel 100 ''test'' lifoConf, init_mem) = 1"
  by (simp add: three_calls_def of_bool_int_def Subscribe_def PublishString_def concurrency_def
      history_def publish_count eval_defs)

text \<open>
  The theorem at three calls on a new LIFO channel: a \<open>Subscribe\<close> that parks, a
  \<open>PublishString\<close> handed to it and queued, and a \<open>Subscribe\<close> that finds it.
\<close>

theorem counter_consistency_witness:
  "run three_calls (newChannel 100 ''test'' lifoConf, init_mem) = Inr three_done \<and>
   Published (stats (fst three_done)) = 3 \<and> Delivered (stats (fst three_done)) = 2 \<and>
   Subscribers (stats (fst three_done)) = int (length (subscribers (fst three_done)))"
proof -
  have c: "int (length (filter publish_call three_calls)) = 1 \<and>
           int (length (filter subscribe_call three_calls)) = 2"
    by (simp add: three_calls_def)
  have m: "ConcurrencyMode lifoConf = ConcurrencyModeLIFO"
    by (simp add: lifoConf_def)
  show ?thesis
    using counter_consistency [OF three_calls_run] three_calls_run
    by (simp add: c m three_calls_tally)
qed

text \<open>
  Claim C9 as stated fails under LIFO: after one \<open>Subscribe\<close> and no call of \<open>Publish\<close>
  or \<open>PublishString\<close>, \<open>Published\<close> is 1.
\<close>

theorem counter_consistency_counterexample:
  "run one_subscribe lifo_new = Inr lifo_parked \<and> filter publish_call one_subscribe = [] \<and>
   Published (stats (fst lifo_parked)) = 1"
proof -
  have "Published (stats (fst lifo_parked)) = 1"
    by (simp add: lifo_parked_def Subscribe_def concurrency_def history_def eval_defs)
  then show ?thesis
    by (simp add: one_subscribe_def lifo_new_def lifo_parked_def)
qed

end
